theory Spec2Isabelle
  imports Complex_Main "HOL-Library.Word" "HOL-Library.AList"
begin

unbundle bit_operations_syntax

section \<open>JavaScript values: number formatting and insertion-ordered maps\<close>

text \<open>
  A template literal prints an integer in decimal, with a minus sign when negative.
\<close>

fun show_nat :: "nat \<Rightarrow> string" where
  "show_nat n =
     (if n < 10 then [char_of (48 + n)]
      else show_nat (n div 10) @ [char_of (48 + n mod 10)])"

declare show_nat.simps [simp del]

definition show_int :: "int \<Rightarrow> string" where
  "show_int i = (if i < 0 then CHR ''-'' # show_nat (nat (- i)) else show_nat (nat i))"

text \<open>Reading a decimal numeral back; used to show that \<open>show_nat\<close> is injective.\<close>

definition read_nat :: "string \<Rightarrow> nat" where
  "read_nat s = foldl (\<lambda>acc c. 10 * acc + (of_char c - 48)) 0 s"

text \<open>
  A JavaScript \<open>Map\<close> keeps its entries in insertion order: \<open>set\<close> on a present key
  replaces the value in place, on an absent key it appends the entry.
\<close>

definition map_has :: "('k \<times> 'v) list \<Rightarrow> 'k \<Rightarrow> bool" where
  "map_has m k = (map_of m k \<noteq> None)"

definition map_get :: "('k \<times> 'v) list \<Rightarrow> 'k \<Rightarrow> 'v option" where
  "map_get m k = map_of m k"

definition map_set :: "('k \<times> 'v) list \<Rightarrow> 'k \<Rightarrow> 'v \<Rightarrow> ('k \<times> 'v) list" where
  "map_set m k v = AList.update k v m"

section \<open>Room system types (src/world/room.ts)\<close>

datatype Direction = north | south | east | west

definition TILE_SIZE :: real where
  "TILE_SIZE = 1"

section \<open>Dungeon generator types\<close>

datatype RoomType = basic | corridor_ns | corridor_ew | junction | dead_end

datatype Variant = treasure | shrine | empty

record DungeonConfig =
  cfg_seed :: int
  minRooms :: int
  maxRooms :: int
  treasureRoomChance :: real
  shrineRoomChance :: real
  branchingFactor :: real

record PartialDungeonConfig =
  opt_seed :: "int option"
  opt_minRooms :: "int option"
  opt_maxRooms :: "int option"
  opt_treasureRoomChance :: "real option"
  opt_shrineRoomChance :: "real option"
  opt_branchingFactor :: "real option"

record GridCell =
  roomId :: "string option"
  occupied :: bool

text \<open>The two material handles are opaque to the generator.\<close>

type_synonym Material = nat

record Materials =
  floor_material :: Material
  wall_material :: Material

text \<open>
  The geometry a room factory returns is kept symbolic: one constructor per factory
  (\<open>createJunctionRoom\<close>, \<open>createCorridorNS\<close>, \<open>createCorridorEW\<close>,
  \<open>createDeadEndRoom\<close>, \<open>createBasicRoom\<close>) applied to its arguments.
\<close>

datatype RoomGeometry =
    JunctionRoom Materials
  | CorridorNS Materials
  | CorridorEW Materials
  | DeadEndRoom Materials Direction Variant
  | BasicRoom Materials

record RoomGroup =
  geometry :: RoomGeometry
  position :: "real \<times> real \<times> real"
  ud_roomId :: string
  ud_gridX :: int
  ud_gridZ :: int

record RoomPlacement =
  rp_id :: string
  rp_type :: RoomType
  gridX :: int
  gridZ :: int
  worldX :: real
  worldZ :: real
  connections :: "(Direction \<times> string option) list"
  group :: "RoomGroup option"

fun OPPOSITE_DIRECTION :: "Direction \<Rightarrow> Direction" where
  "OPPOSITE_DIRECTION north = south"
| "OPPOSITE_DIRECTION south = north"
| "OPPOSITE_DIRECTION east = west"
| "OPPOSITE_DIRECTION west = east"

fun DIRECTION_OFFSET :: "Direction \<Rightarrow> int \<times> int" where
  "DIRECTION_OFFSET north = (0, -1)"
| "DIRECTION_OFFSET south = (0, 1)"
| "DIRECTION_OFFSET east = (1, 0)"
| "DIRECTION_OFFSET west = (-1, 0)"

section \<open>Seeded random number generator\<close>

text \<open>
  The seed is a JavaScript number that \<open>next\<close> increases by \<open>0x6D2B79F5\<close> without
  truncation; the bit operations read it modulo \<open>2^32\<close>. It is modelled as an integer
  (exact while it stays below \<open>2^53\<close>), the 32-bit temporaries as words (\<open>Math.imul\<close>
  is the product modulo \<open>2^32\<close>, \<open>>>>\<close> the logical shift), the result as the real
  number \<open>k / 2^32\<close>. \<open>Math.floor\<close> of a product with that number is exact on doubles
  while the other factor is an integer below \<open>2^21\<close>. A probability is the real number
  its double denotes.
\<close>

record SeededRandom =
  seed :: int

definition rng_next :: "SeededRandom \<Rightarrow> real \<times> SeededRandom" where
  "rng_next r =
     (let s = seed r + 0x6D2B79F5;
          t0 = (word_of_int s :: 32 word);
          t1 = (t0 XOR drop_bit 15 t0) * (t0 OR 1);
          t2 = t1 XOR (t1 + (t1 XOR drop_bit 7 t1) * (t1 OR 61))
      in (real_of_int (uint (t2 XOR drop_bit 14 t2)) / 4294967296, r\<lparr>seed := s\<rparr>))"

definition nextInt :: "int \<Rightarrow> int \<Rightarrow> SeededRandom \<Rightarrow> int \<times> SeededRandom" where
  "nextInt mn mx r =
     (let (x, r') = rng_next r in (\<lfloor>x * real_of_int (mx - mn)\<rfloor> + mn, r'))"

definition chance :: "real \<Rightarrow> SeededRandom \<Rightarrow> bool \<times> SeededRandom" where
  "chance probability r = (let (x, r') = rng_next r in (x < probability, r'))"

text \<open>Reading an array outside its bounds gives \<open>undefined\<close>, here \<open>None\<close>.\<close>

definition pick :: "'a list \<Rightarrow> SeededRandom \<Rightarrow> 'a option \<times> SeededRandom" where
  "pick arr r =
     (let (i, r') = nextInt 0 (int (length arr)) r
      in ((if 0 \<le> i \<and> i < int (length arr) then Some (arr ! nat i) else None), r'))"

section \<open>Dungeon generator\<close>

text \<open>
  \<open>RoomPlacement\<close> objects are shared between the room map and the frontier and are
  mutated through both, so they live in an explicit store: \<open>heap\<close> lists the objects
  the generator has created, a reference is an index into it, and the room map and the
  frontier hold references.
\<close>

type_synonym ref = nat

record DungeonGenerator =
  config :: DungeonConfig
  rng :: SeededRandom
  grid :: "string \<rightharpoonup> GridCell"
  rooms :: "(string \<times> ref) list"
  roomIdCounter :: nat
  materials :: Materials
  treasureRoomCount :: nat
  shrineRoomCount :: nat
  heap :: "RoomPlacement list"

text \<open>
  The only failure of \<open>generate\<close>: \<open>pick\<close> returned \<open>undefined\<close> and the caller
  went on to use it. The growth loop and \<open>expandFrom\<close> read a property of the picked
  value, which throws a TypeError; the choice of a room type would store it as the type.
  All three are the error \<open>UndefinedPick\<close> here, and \<open>generate\<close> is shown never to
  return it.
\<close>

datatype error = UndefinedPick

text \<open>
  The constructor; \<open>random\<close> is the value \<open>Math.random()\<close> returns, read only when the
  configuration has no seed.
\<close>

definition DungeonGenerator_new ::
  "PartialDungeonConfig \<Rightarrow> Materials \<Rightarrow> real \<Rightarrow> DungeonGenerator" where
  "DungeonGenerator_new cfg mats random =
     (let c = \<lparr>cfg_seed = (case opt_seed cfg of Some s \<Rightarrow> s | None \<Rightarrow> \<lfloor>random * 999999\<rfloor>),
                minRooms = (case opt_minRooms cfg of Some v \<Rightarrow> v | None \<Rightarrow> 8),
                maxRooms = (case opt_maxRooms cfg of Some v \<Rightarrow> v | None \<Rightarrow> 15),
                treasureRoomChance = (case opt_treasureRoomChance cfg of Some v \<Rightarrow> v | None \<Rightarrow> 15 / 100),
                shrineRoomChance = (case opt_shrineRoomChance cfg of Some v \<Rightarrow> v | None \<Rightarrow> 8 / 100),
                branchingFactor = (case opt_branchingFactor cfg of Some v \<Rightarrow> v | None \<Rightarrow> 4 / 10)\<rparr>
      in \<lparr>config = c, rng = \<lparr>seed = cfg_seed c\<rparr>, grid = Map.empty, rooms = [],
          roomIdCounter = 0, materials = mats, treasureRoomCount = 0, shrineRoomCount = 0,
          heap = []\<rparr>)"

definition gridKey :: "int \<Rightarrow> int \<Rightarrow> string" where
  "gridKey x z = show_int x @ '','' @ show_int z"

definition isOccupied :: "DungeonGenerator \<Rightarrow> int \<Rightarrow> int \<Rightarrow> bool" where
  "isOccupied g x z = (case grid g (gridKey x z) of None \<Rightarrow> False | Some cell \<Rightarrow> occupied cell)"

definition markOccupied :: "DungeonGenerator \<Rightarrow> int \<Rightarrow> int \<Rightarrow> string \<Rightarrow> DungeonGenerator" where
  "markOccupied g x z rid =
     g\<lparr>grid := (grid g)(gridKey x z \<mapsto> \<lparr>roomId = Some rid, occupied = True\<rparr>)\<rparr>"

definition nextRoomId :: "DungeonGenerator \<Rightarrow> string \<times> DungeonGenerator" where
  "nextRoomId g =
     (''room_'' @ show_nat (roomIdCounter g), g\<lparr>roomIdCounter := roomIdCounter g + 1\<rparr>)"

text \<open>\<open>placeRoom\<close> returns the reference of the new object, or \<open>None\<close> for \<open>null\<close>.\<close>

definition placeRoom ::
  "DungeonGenerator \<Rightarrow> int \<Rightarrow> int \<Rightarrow> RoomType \<Rightarrow> ref option \<times> DungeonGenerator" where
  "placeRoom g x z t =
     (if isOccupied g x z then (None, g)
      else
        let (rid, g1) = nextRoomId g;
            room = \<lparr>rp_id = rid, rp_type = t, gridX = x, gridZ = z,
                    worldX = real_of_int x * 3 * TILE_SIZE,
                    worldZ = real_of_int z * 3 * TILE_SIZE,
                    connections = [], group = None\<rparr>;
            a = length (heap g1);
            g2 = g1\<lparr>heap := heap g1 @ [room]\<rparr>;
            g3 = g2\<lparr>rooms := map_set (rooms g2) rid a\<rparr>;
            g4 = markOccupied g3 x z rid
        in (Some a, g4))"

definition getAvailableDirections :: "DungeonGenerator \<Rightarrow> ref \<Rightarrow> Direction list" where
  "getAvailableDirections g a =
     filter (\<lambda>dir.
        \<not> map_has (connections (heap g ! a)) dir \<and>
        (let (ox, oz) = DIRECTION_OFFSET dir
         in \<not> isOccupied g (gridX (heap g ! a) + ox) (gridZ (heap g ! a) + oz)))
       [north, south, east, west]"

text \<open>The entrance of a dead end is the first direction with a target that is not null.\<close>

fun entrance_of :: "(Direction \<times> string option) list \<Rightarrow> Direction" where
  "entrance_of [] = south"
| "entrance_of ((dir, target) # rest) = (if target \<noteq> None then dir else entrance_of rest)"

text \<open>\<open>createRoomGroup\<close> reads only the materials of the generator, passed as \<open>mats\<close>.\<close>

definition createRoomGroup ::
  "Materials \<Rightarrow> RoomPlacement \<Rightarrow> Variant option \<Rightarrow> RoomGroup" where
  "createRoomGroup mats room variant =
     \<lparr>geometry =
        (case rp_type room of
           junction \<Rightarrow> JunctionRoom mats
         | corridor_ns \<Rightarrow> CorridorNS mats
         | corridor_ew \<Rightarrow> CorridorEW mats
         | dead_end \<Rightarrow>
             DeadEndRoom mats (entrance_of (connections room))
               (case variant of Some v \<Rightarrow> v | None \<Rightarrow> empty)
         | basic \<Rightarrow> BasicRoom mats),
      position = (worldX room, 0, worldZ room),
      ud_roomId = rp_id room, ud_gridX = gridX room, ud_gridZ = gridZ room\<rparr>"

definition set_connection :: "DungeonGenerator \<Rightarrow> ref \<Rightarrow> Direction \<Rightarrow> string \<Rightarrow> DungeonGenerator" where
  "set_connection g a dir target =
     g\<lparr>heap := (heap g)[a := (heap g ! a)\<lparr>connections := map_set (connections (heap g ! a)) dir (Some target)\<rparr>]\<rparr>"

definition set_group :: "DungeonGenerator \<Rightarrow> ref \<Rightarrow> RoomGroup \<Rightarrow> DungeonGenerator" where
  "set_group g a grp = g\<lparr>heap := (heap g)[a := (heap g ! a)\<lparr>group := Some grp\<rparr>]\<rparr>"

definition set_type :: "DungeonGenerator \<Rightarrow> ref \<Rightarrow> RoomType \<Rightarrow> DungeonGenerator" where
  "set_type g a t = g\<lparr>heap := (heap g)[a := (heap g ! a)\<lparr>rp_type := t\<rparr>]\<rparr>"

text \<open>The choice of the new room's type in \<open>expandFrom\<close>.\<close>

definition chooseRoomType :: "DungeonGenerator \<Rightarrow> error + RoomType \<times> DungeonGenerator" where
  "chooseRoomType g =
     (let roomCount = length (rooms g) in
      if roomCount < 3 then
        (let (c, r) = chance (1 / 2) (rng g)
         in Inr ((if c then corridor_ns else basic), g\<lparr>rng := r\<rparr>))
      else
        (let (c, r) = chance (branchingFactor (config g)) (rng g) in
         if c then Inr (junction, g\<lparr>rng := r\<rparr>)
         else
           (case pick [basic, corridor_ns, corridor_ew] r of
              (None, r') \<Rightarrow> Inl UndefinedPick
            | (Some t, r') \<Rightarrow> Inr (t, g\<lparr>rng := r'\<rparr>))))"

definition expandFrom :: "DungeonGenerator \<Rightarrow> ref \<Rightarrow> error + ref option \<times> DungeonGenerator" where
  "expandFrom g a =
     (let available = getAvailableDirections g a in
      if available = [] then Inr (None, g)
      else
        (case pick available (rng g) of
           (None, r) \<Rightarrow> Inl UndefinedPick
         | (Some dir, r) \<Rightarrow>
             (let g1 = g\<lparr>rng := r\<rparr>;
                  (ox, oz) = DIRECTION_OFFSET dir;
                  newGridX = gridX (heap g1 ! a) + ox;
                  newGridZ = gridZ (heap g1 ! a) + oz
              in case chooseRoomType g1 of
                   Inl e \<Rightarrow> Inl e
                 | Inr (roomType, g2) \<Rightarrow>
                     (case placeRoom g2 newGridX newGridZ roomType of
                        (None, g3) \<Rightarrow> Inr (None, g3)
                      | (Some b, g3) \<Rightarrow>
                          (let g4 = set_connection g3 a dir (rp_id (heap g3 ! b));
                               g5 = set_connection g4 b (OPPOSITE_DIRECTION dir) (rp_id (heap g4 ! a));
                               g6 = set_group g5 b (createRoomGroup (materials g5) (heap g5 ! b) None)
                           in Inr (Some b, g6))))))"

text \<open>
  The growth loop of \<open>generate\<close>, on the generator and the frontier. \<open>indexOf\<close> and
  \<open>splice\<close> remove the first occurrence of the picked reference, if there is one.
\<close>

partial_function (option) growth_loop ::
  "int \<Rightarrow> DungeonGenerator \<Rightarrow> ref list \<Rightarrow> (error + DungeonGenerator \<times> ref list) option" where
  [code]: "growth_loop targetRoomCount g frontier =
     (if int (length (rooms g)) < targetRoomCount \<and> frontier \<noteq> [] then
        (case pick frontier (rng g) of
           (None, r) \<Rightarrow> Some (Inl UndefinedPick)
         | (Some currentRoom, r) \<Rightarrow>
             (case expandFrom (g\<lparr>rng := r\<rparr>) currentRoom of
                Inl e \<Rightarrow> Some (Inl e)
              | Inr (None, g') \<Rightarrow> growth_loop targetRoomCount g' (remove1 currentRoom frontier)
              | Inr (Some expanded, g') \<Rightarrow> growth_loop targetRoomCount g' (frontier @ [expanded])))
      else Some (Inr (g, frontier)))"

definition connectionCount :: "RoomPlacement \<Rightarrow> nat" where
  "connectionCount room = length (filter (\<lambda>v. v \<noteq> None) (map snd (connections room)))"

text \<open>The body of the loop of \<open>addSpecialRooms\<close>, for the room at one reference.\<close>

definition special_step :: "ref \<Rightarrow> DungeonGenerator \<Rightarrow> DungeonGenerator" where
  "special_step a g =
     (if connectionCount (heap g ! a) = 1 \<and> rp_type (heap g ! a) \<noteq> junction then
        (let (c1, r1) = chance (treasureRoomChance (config g)) (rng g);
             g1 = g\<lparr>rng := r1\<rparr>
         in if c1 \<and> treasureRoomCount g1 < 2 then
              (let g2 = set_type g1 a dead_end;
                   g3 = set_group g2 a (createRoomGroup (materials g2) (heap g2 ! a) (Some treasure))
               in g3\<lparr>treasureRoomCount := treasureRoomCount g3 + 1\<rparr>)
            else
              (let (c2, r2) = chance (shrineRoomChance (config g1)) (rng g1);
                   g2 = g1\<lparr>rng := r2\<rparr>
               in if c2 \<and> shrineRoomCount g2 < 1 then
                    (let g3 = set_type g2 a dead_end;
                         g4 = set_group g3 a (createRoomGroup (materials g3) (heap g3 ! a) (Some shrine))
                     in g4\<lparr>shrineRoomCount := shrineRoomCount g4 + 1\<rparr>)
                  else g2))
      else g)"

fun special_loop :: "(string \<times> ref) list \<Rightarrow> DungeonGenerator \<Rightarrow> DungeonGenerator" where
  "special_loop [] g = g"
| "special_loop ((rid, a) # rest) g = special_loop rest (special_step a g)"

definition addSpecialRooms :: "DungeonGenerator \<Rightarrow> DungeonGenerator" where
  "addSpecialRooms g = special_loop (rooms g) g"

text \<open>
  \<open>generate\<close> with its locals: the target room count, the generator and the frontier
  when the growth loop ends, and the generator when \<open>generate\<close> returns.
\<close>

datatype GenerateTrace =
    SpawnFailed DungeonGenerator
  | Generated (targetRoomCount: int) (grown: DungeonGenerator) (frontier: "ref list")
      (final: DungeonGenerator)

definition generate_reset :: "DungeonGenerator \<Rightarrow> DungeonGenerator" where
  "generate_reset g =
     g\<lparr>grid := Map.empty, rooms := [], roomIdCounter := 0,
       treasureRoomCount := 0, shrineRoomCount := 0\<rparr>"

definition generate_trace :: "DungeonGenerator \<Rightarrow> (error + GenerateTrace) option" where
  "generate_trace g =
     (let g0 = generate_reset g;
          (target, r) = nextInt (minRooms (config g0)) (maxRooms (config g0) + 1) (rng g0);
          g1 = g0\<lparr>rng := r\<rparr>
      in case placeRoom g1 0 0 junction of
           (None, g2) \<Rightarrow> Some (Inr (SpawnFailed g2))
         | (Some spawnRoom, g2) \<Rightarrow>
             (let g3 = set_group g2 spawnRoom (createRoomGroup (materials g2) (heap g2 ! spawnRoom) None)
              in case growth_loop target g3 [spawnRoom] of
                   None \<Rightarrow> None
                 | Some (Inl e) \<Rightarrow> Some (Inl e)
                 | Some (Inr (g4, fr)) \<Rightarrow>
                     Some (Inr (Generated target g4 fr (addSpecialRooms g4)))))"

text \<open>The generator when \<open>generate\<close> returns; its \<open>rooms\<close> is the map returned.\<close>

fun trace_final :: "GenerateTrace \<Rightarrow> DungeonGenerator" where
  "trace_final (SpawnFailed g) = g"
| "trace_final (Generated t g fr g') = g'"

definition generate :: "DungeonGenerator \<Rightarrow> (error + DungeonGenerator) option" where
  "generate g = map_option (map_sum (\<lambda>e. e) trace_final) (generate_trace g)"

text \<open>The room map as a list of entries, each reference read from the store.\<close>

definition room_map :: "DungeonGenerator \<Rightarrow> (string \<times> RoomPlacement) list" where
  "room_map g = map (\<lambda>(rid, a). (rid, heap g ! a)) (rooms g)"

section \<open>Room builder and room manager (src/world/room.ts, src/world/roomManager.ts)\<close>

record Vector3 =
  vec_x :: real
  vec_y :: real
  vec_z :: real

record Box3 =
  box_min :: Vector3
  box_max :: Vector3

record RoomConnection =
  rc_position :: Vector3
  rc_direction :: Direction
  connectedTo :: "string option"

record RoomDimensions =
  width :: real
  depth :: real
  height :: real

record RoomMetadata =
  md_name :: string
  md_dimensions :: RoomDimensions
  md_connections :: "Direction \<Rightarrow> RoomConnection option"
  md_theme :: string
  md_difficulty :: string

text \<open>
  \<open>userData\<close> holds any properties; the ones read or written here are fields, \<open>None\<close>
  where the property is absent, null or undefined. \<open>isCollisionMesh\<close> holds whether the
  property is truthy.
\<close>

record UserData =
  ud_name :: "string option"
  ud_dimensions :: "RoomDimensions option"
  ud_connections :: "(Direction \<Rightarrow> RoomConnection option) option"
  ud_theme :: "string option"
  ud_difficulty :: "string option"
  ud_isRoom :: bool
  isCollisionMesh :: bool
  ud_type :: "string option"

datatype Geometry = PlaneGeometry real real | BoxGeometry real real real

datatype MeshMaterial = GivenMaterial Material | MeshBasicMaterial_invisible

text \<open>
  A scene-graph object: a group has no geometry and no material; \<open>obj_name\<close> is
  \<open>None\<close> when the name is null or undefined. \<open>userData\<close> is a writable property: the
  library sets it to an empty object when it creates an object, and it is \<open>None\<close> when it
  has been set to null or undefined. Shadow flags and the parent of an object are left out.
\<close>

datatype Object3D =
  Object3D (obj_name: "string option") (userData: "UserData option") (obj_position: Vector3)
    (rotation_x: real) (geometry_of: "Geometry option") (material_of: "MeshMaterial option")
    (children: "Object3D list")

text \<open>What is thrown when a property of null or undefined is read.\<close>

datatype thrown = TypeError

definition empty_userData :: UserData where
  "empty_userData =
     \<lparr>ud_name = None, ud_dimensions = None, ud_connections = None, ud_theme = None,
      ud_difficulty = None, ud_isRoom = False, isCollisionMesh = False, ud_type = None\<rparr>"

definition origin :: Vector3 where
  "origin = \<lparr>vec_x = 0, vec_y = 0, vec_z = 0\<rparr>"

definition WALL_HEIGHT :: real where
  "WALL_HEIGHT = 1"

definition new_Group :: Object3D where
  "new_Group = Object3D (Some []) (Some empty_userData) origin 0 None None []"

definition new_Mesh :: "Geometry \<Rightarrow> MeshMaterial \<Rightarrow> Object3D" where
  "new_Mesh geo mat = Object3D (Some []) (Some empty_userData) origin 0 (Some geo) (Some mat) []"

text \<open>\<open>add\<close> on a parent, for a child that was just created and has no parent yet.\<close>

definition add_child :: "Object3D \<Rightarrow> Object3D \<Rightarrow> Object3D" where
  "add_child parent child =
     (case parent of Object3D n u p r g m cs \<Rightarrow> Object3D n u p r g m (cs @ [child]))"

definition RoomBuilder_createRoomGroup :: "RoomMetadata \<Rightarrow> Object3D" where
  "RoomBuilder_createRoomGroup data =
     (case new_Group of Object3D n u p r g m cs \<Rightarrow>
        Object3D (Some (md_name data))
          (Some \<lparr>ud_name = Some (md_name data), ud_dimensions = Some (md_dimensions data),
           ud_connections = Some (md_connections data), ud_theme = Some (md_theme data),
           ud_difficulty = Some (md_difficulty data), ud_isRoom = True,
           isCollisionMesh = False, ud_type = None\<rparr>)
          p r g m cs)"

definition createWall :: "real \<Rightarrow> real \<Rightarrow> real \<Rightarrow> real \<Rightarrow> Material \<Rightarrow> Object3D" where
  "createWall x z w d material =
     (let mesh = (case new_Mesh (BoxGeometry w WALL_HEIGHT d) (GivenMaterial material) of
                    Object3D n u p r g m cs \<Rightarrow> Object3D n u (p\<lparr>vec_y := WALL_HEIGHT / 2\<rparr>) r g m cs);
          collisionMesh =
            (case new_Mesh (BoxGeometry w WALL_HEIGHT d) MeshBasicMaterial_invisible of
               Object3D n u p r g m cs \<Rightarrow>
                 Object3D n
                   (Some (empty_userData\<lparr>isCollisionMesh := True, ud_type := Some ''wall''\<rparr>))
                   (p\<lparr>vec_y := WALL_HEIGHT / 2\<rparr>) r g m cs)
      in case add_child (add_child new_Group mesh) collisionMesh of
           Object3D n u p r g m cs \<Rightarrow> Object3D n u \<lparr>vec_x = x, vec_y = 0, vec_z = z\<rparr> r g m cs)"

definition createFloor :: "real \<Rightarrow> real \<Rightarrow> real \<Rightarrow> real \<Rightarrow> Material \<Rightarrow> Object3D" where
  "createFloor x z w d material =
     (let mesh = (case new_Mesh (PlaneGeometry w d) (GivenMaterial material) of
                    Object3D n u p r g m cs \<Rightarrow> Object3D n u p (- pi / 2) g m cs);
          collisionMesh =
            (case new_Mesh (PlaneGeometry w d) MeshBasicMaterial_invisible of
               Object3D n u p r g m cs \<Rightarrow>
                 Object3D n
                   (Some (empty_userData\<lparr>isCollisionMesh := True, ud_type := Some ''floor''\<rparr>))
                   p (- pi / 2) g m cs)
      in case add_child (add_child new_Group mesh) collisionMesh of
           Object3D n u p r g m cs \<Rightarrow> Object3D n u \<lparr>vec_x = x, vec_y = 0, vec_z = z\<rparr> r g m cs)"

record CollisionBox =
  box :: Box3
  mesh :: Object3D

record RoomData =
  rd_name :: string
  rd_dimensions :: RoomDimensions
  rd_connections :: "Direction \<Rightarrow> RoomConnection option"
  rd_theme :: string
  rd_difficulty :: string
  rd_group :: Object3D

text \<open>
  The scene is held as the list of its children. What the library's \<open>add\<close> makes of it
  depends on the parent the added object had, so \<open>add\<close> on the scene is a parameter of
  \<open>addRoom\<close>.
\<close>

record RoomManager =
  scene :: "Object3D list"
  rm_rooms :: "RoomData list"
  collisionBoxes :: "CollisionBox list"

definition RoomManager_new :: "Object3D list \<Rightarrow> RoomManager" where
  "RoomManager_new sc = \<lparr>scene = sc, rm_rooms = [], collisionBoxes = []\<rparr>"

text \<open>\<open>traverse\<close> calls back on the object itself, then on each child's subtree in order.\<close>

fun traverse :: "Object3D \<Rightarrow> Object3D list" where
  "traverse (Object3D n u p r g m cs) = Object3D n u p r g m cs # concat (map traverse cs)"

text \<open>
  The callback of \<open>addRoom\<close> on one visited object: it throws when the \<open>userData\<close> of the
  object is null or undefined. \<open>setFromObject\<close> is the library's world-space bounding
  box of an object, taken as a parameter.
\<close>

definition index_child ::
  "(Object3D \<Rightarrow> Box3) \<Rightarrow> CollisionBox list \<Rightarrow> Object3D \<Rightarrow> thrown + CollisionBox list" where
  "index_child setFromObject boxes child =
     (case userData child of
        None \<Rightarrow> Inl TypeError
      | Some ud \<Rightarrow>
          (if isCollisionMesh ud then
             (if ud_type ud = Some ''floor'' then Inr boxes
              else Inr (boxes @ [\<lparr>box = setFromObject child, mesh = child\<rparr>]))
           else Inr boxes))"

text \<open>
  The callback run over the visited objects in order. A throw ends the traversal; the boxes
  pushed before it stay in the index.
\<close>

fun index_traversed ::
  "(Object3D \<Rightarrow> Box3) \<Rightarrow> CollisionBox list \<Rightarrow> Object3D list \<Rightarrow> thrown option \<times> CollisionBox list" where
  "index_traversed setFromObject boxes [] = (None, boxes)"
| "index_traversed setFromObject boxes (child # rest) =
     (case index_child setFromObject boxes child of
        Inl e \<Rightarrow> (Some e, boxes)
      | Inr boxes' \<Rightarrow> index_traversed setFromObject boxes' rest)"

text \<open>
  \<open>addRoom\<close> returns what it threw, if anything, and the manager as the call leaves it.
  Reading \<open>userData.name\<close> throws when \<open>userData\<close> is null or undefined, before anything
  is written. \<open>scene_add\<close> is the library's \<open>add\<close> on the scene.
\<close>

definition addRoom ::
  "(Object3D \<Rightarrow> Box3) \<Rightarrow> (Object3D list \<Rightarrow> Object3D \<Rightarrow> Object3D list) \<Rightarrow>
   RoomManager \<Rightarrow> Object3D \<Rightarrow> thrown option \<times> RoomManager" where
  "addRoom setFromObject scene_add m roomGroup =
     (case userData roomGroup of
        None \<Rightarrow> (Some TypeError, m)
      | Some ud \<Rightarrow>
         (let roomData =
                \<lparr>rd_name =
                   (case ud_name ud of Some n \<Rightarrow> n
                    | None \<Rightarrow> (case obj_name roomGroup of Some n \<Rightarrow> n | None \<Rightarrow> ''UnnamedRoom'')),
                 rd_dimensions =
                   (case ud_dimensions ud of Some d \<Rightarrow> d
                    | None \<Rightarrow> \<lparr>width = 1, depth = 1, height = 1\<rparr>),
                 rd_connections =
                   (case ud_connections ud of Some c \<Rightarrow> c | None \<Rightarrow> (\<lambda>dir. None)),
                 rd_theme = (case ud_theme ud of Some t \<Rightarrow> t | None \<Rightarrow> ''default''),
                 rd_difficulty = (case ud_difficulty ud of Some t \<Rightarrow> t | None \<Rightarrow> ''normal''),
                 rd_group = roomGroup\<rparr>;
              m1 = m\<lparr>rm_rooms := rm_rooms m @ [roomData]\<rparr>;
              m2 = m1\<lparr>scene := scene_add (scene m1) roomGroup\<rparr>;
              indexed = index_traversed setFromObject (collisionBoxes m2) (traverse roomGroup)
          in (fst indexed, m2\<lparr>collisionBoxes := snd indexed\<rparr>)))"

text \<open>
  The scan of \<open>checkCollision\<close>. On a hit the message it logs reads \<open>mesh.userData.type\<close>,
  which throws when the \<open>userData\<close> of the mesh is null or undefined.
\<close>

fun scan_boxes :: "CollisionBox list \<Rightarrow> real \<Rightarrow> real \<Rightarrow> real \<Rightarrow> thrown + bool" where
  "scan_boxes [] x z radius = Inr False"
| "scan_boxes (cb # rest) x z radius =
     (if x \<ge> vec_x (box_min (box cb)) - radius \<and> x \<le> vec_x (box_max (box cb)) + radius \<and>
         z \<ge> vec_z (box_min (box cb)) - radius \<and> z \<le> vec_z (box_max (box cb)) + radius
      then (case userData (mesh cb) of None \<Rightarrow> Inl TypeError | Some ud \<Rightarrow> Inr True)
      else scan_boxes rest x z radius)"

text \<open>\<open>radius\<close> is \<open>None\<close> when the argument is omitted; its default is 0.2.\<close>

definition checkCollision :: "RoomManager \<Rightarrow> real \<Rightarrow> real \<Rightarrow> real option \<Rightarrow> thrown + bool" where
  "checkCollision m x z radius =
     scan_boxes (collisionBoxes m) x z (case radius of Some r \<Rightarrow> r | None \<Rightarrow> 2 / 10)"

section \<open>Definitions for the proofs: invariants and explicit successor states\<close>

text \<open>
  The id \<open>nextRoomId\<close> builds from a value of the counter.
\<close>

definition room_name :: "nat \<Rightarrow> string" where
  "room_name n = ''room_'' @ show_nat n"

text \<open>
  The room a successful \<open>expandFrom\<close> creates, before its geometry is built, and the
  generator it leaves: the explicit form of a growth step.
\<close>

definition new_room_of :: "DungeonGenerator \<Rightarrow> ref \<Rightarrow> Direction \<Rightarrow> RoomType \<Rightarrow> RoomPlacement" where
  "new_room_of g a dir t =
     \<lparr>rp_id = room_name (roomIdCounter g), rp_type = t,
      gridX = gridX (heap g ! a) + fst (DIRECTION_OFFSET dir),
      gridZ = gridZ (heap g ! a) + snd (DIRECTION_OFFSET dir),
      worldX = real_of_int (gridX (heap g ! a) + fst (DIRECTION_OFFSET dir)) * 3 * TILE_SIZE,
      worldZ = real_of_int (gridZ (heap g ! a) + snd (DIRECTION_OFFSET dir)) * 3 * TILE_SIZE,
      connections = [(OPPOSITE_DIRECTION dir, Some (rp_id (heap g ! a)))],
      group = None\<rparr>"

definition grow :: "DungeonGenerator \<Rightarrow> ref \<Rightarrow> Direction \<Rightarrow> RoomType \<Rightarrow> SeededRandom \<Rightarrow> DungeonGenerator" where
  "grow g a dir t r =
     (let nr = new_room_of g a dir t in
      g\<lparr>rng := r,
        grid := (grid g)(gridKey (gridX nr) (gridZ nr) \<mapsto> \<lparr>roomId = Some (rp_id nr), occupied = True\<rparr>),
        rooms := rooms g @ [(rp_id nr, length (heap g))],
        roomIdCounter := roomIdCounter g + 1,
        heap := (heap g)[a := (heap g ! a)\<lparr>connections := connections (heap g ! a) @ [(dir, Some (rp_id nr))]\<rparr>]
                  @ [nr\<lparr>group := Some (createRoomGroup (materials g) nr None)\<rparr>]\<rparr>)"

text \<open>
  The direction and the room type (with the state of the random number generator after
  the choice) that \<open>expandFrom\<close> picks.
\<close>

definition chosen_direction :: "DungeonGenerator \<Rightarrow> ref \<Rightarrow> Direction option" where
  "chosen_direction g a = fst (pick (getAvailableDirections g a) (rng g))"

definition chosen_type :: "DungeonGenerator \<Rightarrow> (RoomType \<times> SeededRandom) option" where
  "chosen_type g =
     (case chooseRoomType (g\<lparr>rng := snd (rng_next (rng g))\<rparr>) of
        Inl e \<Rightarrow> None
      | Inr (t, g') \<Rightarrow> Some (t, rng g'))"

text \<open>
  Invariants of the growth loop. The keys of the room map are \<open>room_0\<close>, \<open>room_1\<close>, ... in
  order, its references are distinct and in the store, and each room has its key as id.
\<close>

definition inv_ids :: "DungeonGenerator \<Rightarrow> bool" where
  "inv_ids g \<longleftrightarrow>
     map fst (rooms g) = map room_name [0..<roomIdCounter g] \<and>
     distinct (map snd (rooms g)) \<and>
     (\<forall>(k, a) \<in> set (rooms g). a < length (heap g) \<and> rp_id (heap g ! a) = k)"

text \<open>
  The references held by the room map.
\<close>

definition refs :: "DungeonGenerator \<Rightarrow> ref list" where
  "refs g = map snd (rooms g)"

text \<open>
  The variant of a room whose group is a dead-end room, \<open>None\<close> for any other room.
\<close>

definition group_variant :: "RoomPlacement \<Rightarrow> Variant option" where
  "group_variant room =
     (case group room of
        None \<Rightarrow> None
      | Some grp \<Rightarrow> (case geometry grp of DeadEndRoom m d v \<Rightarrow> Some v | _ \<Rightarrow> None))"

text \<open>
  The cell of every placed room is occupied, and no two placed rooms share a cell.
\<close>

definition inv_grid :: "DungeonGenerator \<Rightarrow> bool" where
  "inv_grid g \<longleftrightarrow>
     (\<forall>a \<in> set (refs g). isOccupied g (gridX (heap g ! a)) (gridZ (heap g ! a))) \<and>
     distinct (map (\<lambda>a. (gridX (heap g ! a), gridZ (heap g ! a))) (refs g))"

text \<open>
  Every connection of a placed room is answered by the opposite connection of its target.
\<close>

definition inv_bidir :: "DungeonGenerator \<Rightarrow> bool" where
  "inv_bidir g \<longleftrightarrow>
     (\<forall>(k, a) \<in> set (rooms g). \<forall>d n.
        map_of (connections (heap g ! a)) d = Some (Some n) \<longrightarrow>
        (\<exists>b. map_of (rooms g) n = Some b \<and>
             map_of (connections (heap g ! b)) (OPPOSITE_DIRECTION d) = Some (Some k)))"

text \<open>
  No placed room is of type \<open>dead_end\<close> or has a dead-end group (before the special-room pass).
\<close>

definition inv_plain :: "DungeonGenerator \<Rightarrow> bool" where
  "inv_plain g \<longleftrightarrow>
     (\<forall>a \<in> set (refs g). rp_type (heap g ! a) \<noteq> dead_end \<and> group_variant (heap g ! a) = None)"

text \<open>
  The first entry of the room map is the junction at the origin.
\<close>

definition inv_spawn :: "DungeonGenerator \<Rightarrow> bool" where
  "inv_spawn g \<longleftrightarrow>
     (\<exists>a rest. rooms g = (room_name 0, a) # rest \<and> rp_type (heap g ! a) = junction \<and>
        gridX (heap g ! a) = 0 \<and> gridZ (heap g ! a) = 0)"

text \<open>
  The invariant of the growth loop.
\<close>

definition gen_inv :: "DungeonGenerator \<Rightarrow> bool" where
  "gen_inv g \<longleftrightarrow> inv_ids g \<and> inv_grid g \<and> inv_bidir g \<and> inv_plain g \<and> inv_spawn g"

text \<open>
  What the growth loop never writes.
\<close>

definition same_settings :: "DungeonGenerator \<Rightarrow> DungeonGenerator \<Rightarrow> bool" where
  "same_settings g g' \<longleftrightarrow>
     config g' = config g \<and> materials g' = materials g \<and>
     treasureRoomCount g' = treasureRoomCount g \<and> shrineRoomCount g' = shrineRoomCount g"

text \<open>
  The generator after a room is reclassified with a variant, but for the counter.
\<close>

definition reclassify :: "DungeonGenerator \<Rightarrow> ref \<Rightarrow> Variant \<Rightarrow> SeededRandom \<Rightarrow> DungeonGenerator" where
  "reclassify g a v r =
     g\<lparr>rng := r,
       heap := (heap g)[a := (heap g ! a)
                 \<lparr>rp_type := dead_end,
                  group := Some (createRoomGroup (materials g) ((heap g ! a)\<lparr>rp_type := dead_end\<rparr>) (Some v))\<rparr>]\<rparr>"

text \<open>
  The condition under which \<open>addSpecialRooms\<close> rolls for a room.
\<close>

definition is_dead_end_room :: "RoomPlacement \<Rightarrow> bool" where
  "is_dead_end_room room \<longleftrightarrow> connectionCount room = 1 \<and> rp_type room \<noteq> junction"

text \<open>
  What the special-room pass keeps of a room, and how a room before the pass relates to the
  room after it.
\<close>

definition same_frame :: "RoomPlacement \<Rightarrow> RoomPlacement \<Rightarrow> bool" where
  "same_frame room room' \<longleftrightarrow>
     rp_id room' = rp_id room \<and> gridX room' = gridX room \<and> gridZ room' = gridZ room \<and>
     worldX room' = worldX room \<and> worldZ room' = worldZ room \<and>
     connections room' = connections room"

definition room_rel :: "Materials \<Rightarrow> RoomPlacement \<Rightarrow> RoomPlacement \<Rightarrow> bool" where
  "room_rel mats room room' \<longleftrightarrow>
     same_frame room room' \<and>
     (rp_type room' = rp_type room \<and> group room' = group room \<or>
      rp_type room' = dead_end \<and>
      (group room' = Some (createRoomGroup mats room' (Some treasure)) \<or>
       group room' = Some (createRoomGroup mats room' (Some shrine))))"

text \<open>
  How the generator before the special-room pass relates to the generator after it.
\<close>

definition pass_rel :: "DungeonGenerator \<Rightarrow> DungeonGenerator \<Rightarrow> bool" where
  "pass_rel g g' \<longleftrightarrow>
     rooms g' = rooms g \<and> materials g' = materials g \<and> config g' = config g \<and>
     grid g' = grid g \<and> roomIdCounter g' = roomIdCounter g \<and>
     length (heap g') = length (heap g) \<and>
     (\<forall>c < length (heap g). room_rel (materials g) (heap g ! c) (heap g' ! c))"

text \<open>
  The number of entries of a list whose room has a dead-end group of a given variant.
\<close>

definition variant_count :: "Variant \<Rightarrow> DungeonGenerator \<Rightarrow> (string \<times> ref) list \<Rightarrow> nat" where
  "variant_count v g xs = length (filter (\<lambda>(k, a). group_variant (heap g ! a) = Some v) xs)"

text \<open>
  The target room count \<open>generate\<close> draws, and the generator when the growth loop starts.
\<close>

definition drawn_target :: "DungeonGenerator \<Rightarrow> int" where
  "drawn_target g = fst (nextInt (minRooms (config g)) (maxRooms (config g) + 1) (rng g))"

definition spawn_room :: "Materials \<Rightarrow> RoomPlacement" where
  "spawn_room mats =
     (let room = \<lparr>rp_id = room_name 0, rp_type = junction, gridX = 0, gridZ = 0,
                   worldX = real_of_int 0 * 3 * TILE_SIZE, worldZ = real_of_int 0 * 3 * TILE_SIZE,
                   connections = [], group = None\<rparr>
      in room\<lparr>group := Some (createRoomGroup mats room None)\<rparr>)"

definition seeded :: "DungeonGenerator \<Rightarrow> DungeonGenerator" where
  "seeded g =
     g\<lparr>rng := snd (nextInt (minRooms (config g)) (maxRooms (config g) + 1) (rng g)),
       grid := [gridKey 0 0 \<mapsto> \<lparr>roomId = Some (room_name 0), occupied = True\<rparr>],
       rooms := [(room_name 0, length (heap g))],
       roomIdCounter := 1, treasureRoomCount := 0, shrineRoomCount := 0,
       heap := heap g @ [spawn_room (materials g)]\<rparr>"

text \<open>
  A concrete run: seed 1, one or two rooms, every dead end a treasure room.
\<close>

definition demo_config :: PartialDungeonConfig where
  "demo_config =
     \<lparr>opt_seed = Some 1, opt_minRooms = Some 1, opt_maxRooms = Some 2,
      opt_treasureRoomChance = Some 1, opt_shrineRoomChance = Some 0,
      opt_branchingFactor = Some 0\<rparr>"

definition demo_generator :: DungeonGenerator where
  "demo_generator = DungeonGenerator_new demo_config \<lparr>floor_material = 0, wall_material = 1\<rparr> 0"

text \<open>
  What is compared when a trace is evaluated: the store is read through the room map.
\<close>

definition trace_view ::
  "GenerateTrace \<Rightarrow>
   (int \<times> (string \<times> RoomPlacement) list \<times> ref list \<times> (string \<times> RoomPlacement) list \<times> nat \<times> nat) option" where
  "trace_view t =
     (case t of
        SpawnFailed g \<Rightarrow> None
      | Generated target g4 fr g5 \<Rightarrow>
          Some (target, room_map g4, fr, room_map g5, treasureRoomCount g5, shrineRoomCount g5))"

text \<open>
  A generator with two linked rooms, as the growth loop leaves it.
\<close>

definition two_rooms :: DungeonGenerator where
  "two_rooms =
     \<lparr>config = \<lparr>cfg_seed = 1, minRooms = 1, maxRooms = 2, treasureRoomChance = 1,
                  shrineRoomChance = 0, branchingFactor = 0\<rparr>,
      rng = \<lparr>seed = 5494697439\<rparr>,
      grid = [''0,0'' \<mapsto> \<lparr>roomId = Some ''room_0'', occupied = True\<rparr>,
              ''1,0'' \<mapsto> \<lparr>roomId = Some ''room_1'', occupied = True\<rparr>],
      rooms = [(''room_0'', 0), (''room_1'', 1)],
      roomIdCounter = 2,
      materials = \<lparr>floor_material = 0, wall_material = 1\<rparr>,
      treasureRoomCount = 0, shrineRoomCount = 0,
      heap =
        [\<lparr>rp_id = ''room_0'', rp_type = junction, gridX = 0, gridZ = 0,
           worldX = 0, worldZ = 0, connections = [(east, Some ''room_1'')], group = None\<rparr>,
         \<lparr>rp_id = ''room_1'', rp_type = basic, gridX = 1, gridZ = 0,
           worldX = 3, worldZ = 0, connections = [(west, Some ''room_0'')], group = None\<rparr>]\<rparr>"

text \<open>
  A generator without its materials and its geometry: what the room graph depends on.
\<close>

definition erase_room :: "RoomPlacement \<Rightarrow> RoomPlacement" where
  "erase_room room = room\<lparr>group := None\<rparr>"

definition erase :: "DungeonGenerator \<Rightarrow> DungeonGenerator" where
  "erase g = g\<lparr>materials := \<lparr>floor_material = 0, wall_material = 0\<rparr>,
              heap := map erase_room (heap g)\<rparr>"

text \<open>
  The room graph: ids, types, grid coordinates and connection maps, in the order of the map.
\<close>

definition room_graph ::
  "DungeonGenerator \<Rightarrow>
   (string \<times> string \<times> RoomType \<times> int \<times> int \<times> (Direction \<times> string option) list) list" where
  "room_graph g =
     map (\<lambda>(k, room). (k, rp_id room, rp_type room, gridX room, gridZ room, connections room))
       (room_map g)"

text \<open>
  The choice of a room type as a function of what it reads.
\<close>

definition choose_value :: "nat \<Rightarrow> real \<Rightarrow> SeededRandom \<Rightarrow> (RoomType \<times> SeededRandom) option" where
  "choose_value roomCount bf r0 =
     (if roomCount < 3 then
        Some ((if fst (chance (1 / 2) r0) then corridor_ns else basic), snd (chance (1 / 2) r0))
      else if fst (chance bf r0) then Some (junction, snd (chance bf r0))
      else (case fst (pick [basic, corridor_ns, corridor_ew] (snd (chance bf r0))) of
              None \<Rightarrow> None
            | Some t \<Rightarrow> Some (t, snd (pick [basic, corridor_ns, corridor_ew] (snd (chance bf r0))))))"

text \<open>
  A box that spans the unit cube, a room of one floor and one wall, and two rooms of one
  floor and one wall whose group holds no metadata: one with no name, one named.
\<close>

definition unit_box :: Box3 where
  "unit_box = \<lparr>box_min = \<lparr>vec_x = 0, vec_y = 0, vec_z = 0\<rparr>,
               box_max = \<lparr>vec_x = 1, vec_y = 1, vec_z = 1\<rparr>\<rparr>"

definition wall_and_floor_room :: Object3D where
  "wall_and_floor_room =
     add_child (add_child new_Group (createFloor (1 / 2) (1 / 2) 1 1 0))
       (createWall (1 / 2) (1 / 2) 1 1 1)"

definition unnamed_room :: Object3D where
  "unnamed_room =
     Object3D None (Some empty_userData) origin 0 None None
       [createFloor (1 / 2) (1 / 2) 1 1 0, createWall (1 / 2) (1 / 2) 1 1 1]"

definition named_room :: Object3D where
  "named_room =
     Object3D (Some ''hall'') (Some empty_userData) origin 0 None None
       [createFloor (1 / 2) (1 / 2) 1 1 0, createWall (1 / 2) (1 / 2) 1 1 1]"

text \<open>
  The test of \<open>checkCollision\<close> on one box, and the objects \<open>addRoom\<close> indexes: the
  collision meshes that are not floors.
\<close>

definition in_expanded_box :: "CollisionBox \<Rightarrow> real \<Rightarrow> real \<Rightarrow> real \<Rightarrow> bool" where
  "in_expanded_box cb x z radius \<longleftrightarrow>
     vec_x (box_min (box cb)) - radius \<le> x \<and> x \<le> vec_x (box_max (box cb)) + radius \<and>
     vec_z (box_min (box cb)) - radius \<le> z \<and> z \<le> vec_z (box_max (box cb)) + radius"

definition indexable :: "Object3D \<Rightarrow> bool" where
  "indexable child \<longleftrightarrow>
     (case userData child of
        None \<Rightarrow> False
      | Some ud \<Rightarrow> isCollisionMesh ud \<and> ud_type ud \<noteq> Some ''floor'')"

text \<open>
  An object as the library creates it and as its type declares it: \<open>userData\<close> is an
  object, on the object itself and on each of its descendants. The second predicate says
  the same of the meshes a manager has indexed.
\<close>

fun has_userData :: "Object3D \<Rightarrow> bool" where
  "has_userData (Object3D n u p r g m cs) \<longleftrightarrow> u \<noteq> None \<and> list_all has_userData cs"

definition indexed_with_userData :: "RoomManager \<Rightarrow> bool" where
  "indexed_with_userData m \<longleftrightarrow> list_all (\<lambda>cb. userData (mesh cb) \<noteq> None) (collisionBoxes m)"

section \<open>Proofs\<close>

lemma read_nat_snoc: "read_nat (s @ [c]) = 10 * read_nat s + (of_char c - 48)"
  by (simp add: read_nat_def)

lemma of_char_digit: "d < 10 \<Longrightarrow> (of_char (char_of (48 + d :: nat)) :: nat) = 48 + d"
  by simp

lemma read_show_nat: "read_nat (show_nat n) = n"
proof (induction n rule: show_nat.induct)
  case (1 n)
  show ?case
  proof (cases "n < 10")
    case True
    then show ?thesis
      by (subst show_nat.simps) (simp add: read_nat_def)
  next
    case False
    have "n mod 10 < 10" by simp
    then have d: "(of_char (char_of (48 + n mod 10)) :: nat) = 48 + n mod 10"
      by (rule of_char_digit)
    from False 1 have "read_nat (show_nat (n div 10)) = n div 10" by simp
    with False d show ?thesis
      by (subst show_nat.simps) (simp add: read_nat_snoc)
  qed
qed

lemma show_nat_inj: "show_nat m = show_nat n \<longleftrightarrow> m = n"
  by (metis read_show_nat)

lemma uint_range32: "0 \<le> uint (w :: 32 word) \<and> uint w < 4294967296"
  using uint_lt2p [of w] by simp

lemma rng_next_word:
  "\<exists>k :: int. fst (rng_next r) = real_of_int k / 4294967296 \<and> (0 \<le> k \<and> k < 4294967296)"
  unfolding rng_next_def Let_def fst_conv
  by (rule exI, rule conjI, rule refl, rule uint_range32)

lemma rng_next_range: "0 \<le> fst (rng_next r) \<and> fst (rng_next r) < 1"
proof -
  obtain k :: int where k: "fst (rng_next r) = real_of_int k / 4294967296" "0 \<le> k" "k < 4294967296"
    using rng_next_word by blast
  then show ?thesis by simp
qed

lemma nextInt_range:
  assumes "mn < mx"
  shows "mn \<le> fst (nextInt mn mx r) \<and> fst (nextInt mn mx r) < mx"
proof -
  define x where "x = fst (rng_next r)"
  have x: "0 \<le> x" "x < 1"
    using rng_next_range [of r] by (simp_all add: x_def)
  define d where "d = real_of_int (mx - mn)"
  have d: "0 < d" using assms by (simp add: d_def)
  have v: "fst (nextInt mn mx r) = \<lfloor>x * d\<rfloor> + mn"
    by (simp add: nextInt_def x_def d_def split: prod.splits)
  have "0 \<le> x * d" using x d by simp
  then have lo: "0 \<le> \<lfloor>x * d\<rfloor>" by simp
  have "x * d < d" using x d by simp
  then have "\<lfloor>x * d\<rfloor> < mx - mn"
    by (simp add: floor_less_iff d_def)
  with lo show ?thesis unfolding v by simp
qed

lemma pick_rng: "snd (pick arr r) = snd (rng_next r)"
  by (simp add: pick_def nextInt_def split: prod.splits)

lemma chance_rng: "snd (chance p r) = snd (rng_next r)"
  by (simp add: chance_def split: prod.splits)

lemma pick_Some:
  assumes "arr \<noteq> []"
  shows "\<exists>x \<in> set arr. fst (pick arr r) = Some x"
proof -
  obtain i r' where n: "nextInt 0 (int (length arr)) r = (i, r')"
    by (cases "nextInt 0 (int (length arr)) r")
  have "0 < int (length arr)" using assms by simp
  from nextInt_range [OF this, of r] n
  have i: "0 \<le> i" "i < int (length arr)"
    by simp_all
  then have "nat i < length arr" by simp
  then have "arr ! nat i \<in> set arr" by simp
  with i n show ?thesis
    by (simp add: pick_def)
qed

lemma pick_cases:
  assumes "arr \<noteq> []"
  obtains x where "x \<in> set arr" "pick arr r = (Some x, snd (rng_next r))"
  using pick_Some [OF assms, of r] pick_rng [of arr r] by (metis prod.collapse)

lemma room_name_inj: "room_name m = room_name n \<longleftrightarrow> m = n"
  by (simp add: room_name_def show_nat_inj)

lemma update_fresh: "k \<notin> fst ` set al \<Longrightarrow> AList.update k v al = al @ [(k, v)]"
  by (induction al) auto

lemma map_set_fresh: "map_of m k = None \<Longrightarrow> map_set m k v = m @ [(k, v)]"
  by (simp add: map_set_def update_fresh map_of_eq_None_iff)

lemma inv_ids_fresh:
  assumes "inv_ids g"
  shows "room_name (roomIdCounter g) \<notin> fst ` set (rooms g)"
proof -
  have "fst ` set (rooms g) = set (map room_name [0..<roomIdCounter g])"
    using assms by (metis inv_ids_def set_map)
  then show ?thesis by (auto simp: room_name_inj)
qed

lemma isOccupied_rng [simp]: "isOccupied (g\<lparr>rng := r\<rparr>) x z = isOccupied g x z"
  by (simp add: isOccupied_def)

lemma getAvailableDirections_rng [simp]:
  "getAvailableDirections (g\<lparr>rng := r\<rparr>) a = getAvailableDirections g a"
  by (simp add: getAvailableDirections_def)

lemma available_dir:
  assumes "dir \<in> set (getAvailableDirections g a)"
  shows "map_of (connections (heap g ! a)) dir = None"
    and "\<not> isOccupied g (gridX (heap g ! a) + fst (DIRECTION_OFFSET dir)) (gridZ (heap g ! a) + snd (DIRECTION_OFFSET dir))"
  using assms unfolding getAvailableDirections_def set_filter
  by (simp_all add: map_has_def split_beta)

lemma chooseRoomType_ok:
  "\<exists>t r. chooseRoomType g = Inr (t, g\<lparr>rng := r\<rparr>) \<and> t \<noteq> dead_end"
proof (cases "length (rooms g) < 3")
  case True
  then show ?thesis
    by (auto simp: chooseRoomType_def Let_def split: prod.splits)
next
  case False
  obtain c r where c: "chance (branchingFactor (config g)) (rng g) = (c, r)"
    by (cases "chance (branchingFactor (config g)) (rng g)")
  show ?thesis
  proof (cases c)
    case True
    with False c show ?thesis by (auto simp: chooseRoomType_def Let_def)
  next
    case nc: False
    obtain t where t: "t \<in> set [basic, corridor_ns, corridor_ew]"
      "pick [basic, corridor_ns, corridor_ew] r = (Some t, snd (rng_next r))"
      by (rule pick_cases [of "[basic, corridor_ns, corridor_ew]" r]) simp_all
    from t(1) have "t \<noteq> dead_end" by auto
    with False c nc t(2) show ?thesis by (auto simp: chooseRoomType_def Let_def)
  qed
qed

lemma placeRoom_free:
  assumes "\<not> isOccupied g x z"
  shows "placeRoom g x z t =
     (Some (length (heap g)),
      g\<lparr>roomIdCounter := roomIdCounter g + 1,
        heap := heap g @ [\<lparr>rp_id = room_name (roomIdCounter g), rp_type = t, gridX = x, gridZ = z,
                    worldX = real_of_int x * 3 * TILE_SIZE,
                    worldZ = real_of_int z * 3 * TILE_SIZE,
                    connections = [], group = None\<rparr>],
        rooms := map_set (rooms g) (room_name (roomIdCounter g)) (length (heap g)),
        grid := (grid g)(gridKey x z \<mapsto> \<lparr>roomId = Some (room_name (roomIdCounter g)), occupied = True\<rparr>)\<rparr>)"
  using assms by (simp add: placeRoom_def nextRoomId_def markOccupied_def room_name_def Let_def)

lemma expandFrom_empty:
  "getAvailableDirections g a = [] \<Longrightarrow> expandFrom g a = Inr (None, g)"
  by (simp add: expandFrom_def)

lemma expandFrom_grow:
  assumes inv: "inv_ids g" and a: "a < length (heap g)"
    and av: "getAvailableDirections g a \<noteq> []"
  shows "\<exists>dir t r. chosen_direction g a = Some dir \<and> chosen_type g = Some (t, r) \<and>
           dir \<in> set (getAvailableDirections g a) \<and> t \<noteq> dead_end \<and>
           expandFrom g a = Inr (Some (length (heap g)), grow g a dir t r)"
proof -
  obtain dir where dir: "dir \<in> set (getAvailableDirections g a)"
    "pick (getAvailableDirections g a) (rng g) = (Some dir, snd (rng_next (rng g)))"
    using pick_cases [OF av] by blast
  obtain t r where t: "chooseRoomType (g\<lparr>rng := snd (rng_next (rng g))\<rparr>) = Inr (t, g\<lparr>rng := r\<rparr>)"
    "t \<noteq> dead_end"
    using chooseRoomType_ok [of "g\<lparr>rng := snd (rng_next (rng g))\<rparr>"] by auto
  have free: "\<not> isOccupied (g\<lparr>rng := r\<rparr>) (gridX (heap g ! a) + fst (DIRECTION_OFFSET dir))
      (gridZ (heap g ! a) + snd (DIRECTION_OFFSET dir))"
    using available_dir(2) [OF dir(1)] by simp
  have nodir: "map_of (connections (heap g ! a)) dir = None"
    using available_dir(1) [OF dir(1)] .
  have fresh: "map_of (rooms g) (room_name (roomIdCounter g)) = None"
    using inv_ids_fresh [OF inv] by (simp add: map_of_eq_None_iff)
  have "expandFrom g a = Inr (Some (length (heap g)), grow g a dir t r)"
    using av dir(2) t(1) a nodir fresh
    by (simp_all add: expandFrom_def Let_def split_beta placeRoom_free [OF free]
          grow_def new_room_of_def set_connection_def set_group_def
          map_set_fresh nth_append list_update_append)
  moreover have "chosen_direction g a = Some dir"
    by (simp add: chosen_direction_def dir(2))
  moreover have "chosen_type g = Some (t, r)"
    by (simp add: chosen_type_def t(1))
  ultimately show ?thesis using dir(1) t(2) by blast
qed

lemma inv_ids_ref_lt: "inv_ids g \<Longrightarrow> a \<in> set (refs g) \<Longrightarrow> a < length (heap g)"
  by (auto simp: inv_ids_def refs_def)

lemma inv_ids_key: "inv_ids g \<Longrightarrow> (k, a) \<in> set (rooms g) \<Longrightarrow> rp_id (heap g ! a) = k"
  by (auto simp: inv_ids_def)

lemma inv_ids_distinct_keys: "inv_ids g \<Longrightarrow> distinct (map fst (rooms g))"
  by (simp add: inv_ids_def distinct_map inj_on_def room_name_inj)

lemma inv_ids_map_of: "inv_ids g \<Longrightarrow> (k, a) \<in> set (rooms g) \<Longrightarrow> map_of (rooms g) k = Some a"
  by (simp add: inv_ids_distinct_keys)

lemma rooms_grow [simp]:
  "rooms (grow g a dir t r) = rooms g @ [(room_name (roomIdCounter g), length (heap g))]"
  by (simp add: grow_def new_room_of_def Let_def)

lemma refs_grow [simp]: "refs (grow g a dir t r) = refs g @ [length (heap g)]"
  by (simp add: refs_def)

lemma counter_grow [simp]: "roomIdCounter (grow g a dir t r) = Suc (roomIdCounter g)"
  by (simp add: grow_def Let_def)

lemma length_heap_grow [simp]: "length (heap (grow g a dir t r)) = Suc (length (heap g))"
  by (simp add: grow_def Let_def)

lemma misc_grow [simp]:
  "config (grow g a dir t r) = config g"
  "materials (grow g a dir t r) = materials g"
  "treasureRoomCount (grow g a dir t r) = treasureRoomCount g"
  "shrineRoomCount (grow g a dir t r) = shrineRoomCount g"
  "rng (grow g a dir t r) = r"
  by (simp_all add: grow_def Let_def)

lemma heap_grow_old:
  "c < length (heap g) \<Longrightarrow>
   heap (grow g a dir t r) ! c =
     (if c = a
      then (heap g ! a)\<lparr>connections := connections (heap g ! a) @ [(dir, Some (room_name (roomIdCounter g)))]\<rparr>
      else heap g ! c)"
  by (simp add: grow_def new_room_of_def Let_def nth_append)

lemma heap_grow_new:
  "heap (grow g a dir t r) ! length (heap g) =
     (new_room_of g a dir t)\<lparr>group := Some (createRoomGroup (materials g) (new_room_of g a dir t) None)\<rparr>"
  by (simp add: grow_def Let_def nth_append)

lemma isOccupied_grow:
  "isOccupied (grow g a dir t r) x z \<longleftrightarrow>
     gridKey x z = gridKey (gridX (new_room_of g a dir t)) (gridZ (new_room_of g a dir t)) \<or> isOccupied g x z"
  by (simp add: grow_def Let_def isOccupied_def)

lemma inv_ids_grow:
  assumes "inv_ids g"
  shows "inv_ids (grow g a dir t r)"
proof -
  have lt: "\<forall>c \<in> set (map snd (rooms g)). c < length (heap g)"
    using assms by (auto simp: inv_ids_def)
  have "length (heap g) \<notin> set (map snd (rooms g))"
    using lt by auto
  moreover have "\<forall>(k, c) \<in> set (rooms g). c < Suc (length (heap g)) \<and> rp_id (heap (grow g a dir t r) ! c) = k"
    using assms by (auto simp: inv_ids_def heap_grow_old)
  moreover have "rp_id (heap (grow g a dir t r) ! length (heap g)) = room_name (roomIdCounter g)"
    by (simp add: heap_grow_new new_room_of_def)
  ultimately show ?thesis
    using assms by (auto simp: inv_ids_def)
qed

lemma inv_grid_grow:
  assumes ids: "inv_ids g" and gr: "inv_grid g" and dir: "dir \<in> set (getAvailableDirections g a)"
  shows "inv_grid (grow g a dir t r)"
proof -
  let ?g' = "grow g a dir t r"
  let ?nx = "gridX (new_room_of g a dir t)" and ?nz = "gridZ (new_room_of g a dir t)"
  have free: "\<not> isOccupied g ?nx ?nz"
    using available_dir(2) [OF dir] by (simp add: new_room_of_def)
  have old: "gridX (heap ?g' ! c) = gridX (heap g ! c) \<and> gridZ (heap ?g' ! c) = gridZ (heap g ! c)"
    if "c \<in> set (refs g)" for c
    using inv_ids_ref_lt [OF ids that] by (simp add: heap_grow_old)
  have new: "gridX (heap ?g' ! length (heap g)) = ?nx" "gridZ (heap ?g' ! length (heap g)) = ?nz"
    by (simp_all add: heap_grow_new)
  have occ: "isOccupied g (gridX (heap g ! c)) (gridZ (heap g ! c))" if "c \<in> set (refs g)" for c
    using gr that by (simp add: inv_grid_def)
  have m: "map (\<lambda>c. (gridX (heap ?g' ! c), gridZ (heap ?g' ! c))) (refs g)
         = map (\<lambda>c. (gridX (heap g ! c), gridZ (heap g ! c))) (refs g)"
    by (rule map_cong) (simp_all add: old)
  have notin: "(?nx, ?nz) \<notin> set (map (\<lambda>c. (gridX (heap g ! c), gridZ (heap g ! c))) (refs g))"
  proof
    assume "(?nx, ?nz) \<in> set (map (\<lambda>c. (gridX (heap g ! c), gridZ (heap g ! c))) (refs g))"
    then obtain c where "c \<in> set (refs g)" "gridX (heap g ! c) = ?nx" "gridZ (heap g ! c) = ?nz"
      by auto
    with occ [of c] free show False by simp
  qed
  have d: "distinct (map (\<lambda>c. (gridX (heap g ! c), gridZ (heap g ! c))) (refs g))"
    using gr by (simp add: inv_grid_def)
  have 1: "\<forall>c \<in> set (refs ?g'). isOccupied ?g' (gridX (heap ?g' ! c)) (gridZ (heap ?g' ! c))"
    using old occ new by (auto simp: isOccupied_grow)
  have 2: "distinct (map (\<lambda>c. (gridX (heap ?g' ! c), gridZ (heap ?g' ! c))) (refs ?g'))"
    using notin d by (simp add: m new)
  from 1 2 show ?thesis unfolding inv_grid_def by blast
qed

lemma inv_plain_grow:
  assumes ids: "inv_ids g" and pl: "inv_plain g" and t: "t \<noteq> dead_end"
  shows "inv_plain (grow g a dir t r)"
proof -
  let ?g' = "grow g a dir t r"
  have old: "rp_type (heap ?g' ! c) = rp_type (heap g ! c) \<and> group_variant (heap ?g' ! c) = group_variant (heap g ! c)"
    if "c \<in> set (refs g)" for c
    using inv_ids_ref_lt [OF ids that] by (simp add: heap_grow_old group_variant_def)
  have new: "rp_type (heap ?g' ! length (heap g)) = t" "group_variant (heap ?g' ! length (heap g)) = None"
    using t by (cases t; simp add: heap_grow_new new_room_of_def group_variant_def createRoomGroup_def)+
  show ?thesis
    using pl old new t by (auto simp: inv_plain_def)
qed

lemma inv_spawn_grow:
  assumes ids: "inv_ids g" and sp: "inv_spawn g"
  shows "inv_spawn (grow g a dir t r)"
proof -
  from sp obtain a0 rest where r: "rooms g = (room_name 0, a0) # rest"
    "rp_type (heap g ! a0) = junction" "gridX (heap g ! a0) = 0" "gridZ (heap g ! a0) = 0"
    unfolding inv_spawn_def by blast
  have "a0 \<in> set (refs g)" by (simp add: refs_def r(1))
  then have lt: "a0 < length (heap g)" by (rule inv_ids_ref_lt [OF ids])
  have "rp_type (heap (grow g a dir t r) ! a0) = junction \<and>
        gridX (heap (grow g a dir t r) ! a0) = 0 \<and> gridZ (heap (grow g a dir t r) ! a0) = 0"
    using r(2-4) lt by (auto simp: heap_grow_old)
  then show ?thesis
    unfolding inv_spawn_def by (simp add: r(1))
qed

lemma opposite_opposite [simp]: "OPPOSITE_DIRECTION (OPPOSITE_DIRECTION d) = d"
  by (cases d) simp_all

lemma conn_grow:
  assumes "a < length (heap g)" "c \<le> length (heap g)"
    and "map_of (connections (heap g ! a)) dir = None"
  shows "map_of (connections (heap (grow g a dir t r) ! c)) d =
     (if c = length (heap g)
      then (if d = OPPOSITE_DIRECTION dir then Some (Some (rp_id (heap g ! a))) else None)
      else if c = a \<and> d = dir then Some (Some (room_name (roomIdCounter g)))
      else map_of (connections (heap g ! c)) d)"
proof (cases "c = length (heap g)")
  case True
  then show ?thesis by (simp add: heap_grow_new new_room_of_def)
next
  case False
  with assms(2) have "c < length (heap g)" by simp
  then show ?thesis
    using False assms(1,3) by (auto simp: heap_grow_old map_add_def split: option.splits)
qed

lemma map_of_rooms_grow:
  assumes "inv_ids g"
  shows "map_of (rooms (grow g a dir t r)) n =
     (if n = room_name (roomIdCounter g) then Some (length (heap g)) else map_of (rooms g) n)"
proof -
  have "map_of (rooms g) (room_name (roomIdCounter g)) = None"
    using inv_ids_fresh [OF assms] by (simp add: map_of_eq_None_iff)
  then show ?thesis
    by (auto simp: map_add_def split: option.splits)
qed

lemma inv_bidir_grow:
  assumes ids: "inv_ids g" and bi: "inv_bidir g" and a: "a \<in> set (refs g)"
    and dir: "dir \<in> set (getAvailableDirections g a)"
  shows "inv_bidir (grow g a dir t r)"
proof -
  let ?g' = "grow g a dir t r"
  let ?b = "length (heap g)"
  let ?kb = "room_name (roomIdCounter g)"
  let ?ka = "rp_id (heap g ! a)"
  have alt: "a < ?b" using inv_ids_ref_lt [OF ids a] .
  have nodir: "map_of (connections (heap g ! a)) dir = None"
    using available_dir(1) [OF dir] .
  note conn = conn_grow [OF alt _ nodir, of _ t r]
  have ka: "(?ka, a) \<in> set (rooms g)"
  proof -
    from a obtain k where "(k, a) \<in> set (rooms g)" by (auto simp: refs_def)
    with inv_ids_key [OF ids this] show ?thesis by simp
  qed
  have fresh: "map_of (rooms g) ?kb = None"
    using inv_ids_fresh [OF ids] by (simp add: map_of_eq_None_iff)
  have ka_ne: "?ka \<noteq> ?kb"
    using inv_ids_map_of [OF ids ka] fresh by auto
  have goal: "\<exists>e. map_of (rooms ?g') n = Some e \<and>
                map_of (connections (heap ?g' ! e)) (OPPOSITE_DIRECTION d) = Some (Some k)"
    if kc: "(k, c) \<in> set (rooms ?g')"
      and cn: "map_of (connections (heap ?g' ! c)) d = Some (Some n)" for k c d n
  proof (cases "c = ?b")
    case True
    have "k = ?kb"
    proof (rule ccontr)
      assume "k \<noteq> ?kb"
      with kc True have "(k, ?b) \<in> set (rooms g)" by simp
      then have "?b \<in> set (refs g)" by (force simp: refs_def)
      with inv_ids_ref_lt [OF ids] show False by blast
    qed
    from cn True have dn: "d = OPPOSITE_DIRECTION dir" "n = ?ka"
      by (simp_all add: conn split: if_splits)
    have "map_of (rooms ?g') ?ka = Some a"
      using inv_ids_map_of [OF ids ka] ka_ne map_of_rooms_grow [OF ids, of a dir t r ?ka] by simp
    moreover have "map_of (connections (heap ?g' ! a)) (OPPOSITE_DIRECTION d) = Some (Some k)"
      using alt \<open>k = ?kb\<close> dn by (simp add: conn)
    ultimately show ?thesis using dn by blast
  next
    case False
    with kc have kc': "(k, c) \<in> set (rooms g)" by auto
    then have c: "c \<in> set (refs g)" by (force simp: refs_def)
    have clt: "c < ?b" using inv_ids_ref_lt [OF ids c] .
    show ?thesis
    proof (cases "c = a \<and> d = dir")
      case True
      with cn alt have n: "n = ?kb" by (simp add: conn)
      have k: "k = ?ka" using inv_ids_key [OF ids kc'] True by simp
      have "map_of (rooms ?g') ?kb = Some ?b"
        using map_of_rooms_grow [OF ids, of a dir t r ?kb] by simp
      moreover have "map_of (connections (heap ?g' ! ?b)) (OPPOSITE_DIRECTION d) = Some (Some k)"
        using True k by (simp add: conn)
      ultimately show ?thesis using n by blast
    next
      case nad: False
      with cn clt have "map_of (connections (heap g ! c)) d = Some (Some n)"
        by (simp add: conn split: if_splits)
      with bi kc' obtain e where e: "map_of (rooms g) n = Some e"
        "map_of (connections (heap g ! e)) (OPPOSITE_DIRECTION d) = Some (Some k)"
        unfolding inv_bidir_def by blast
      from e(1) have "(n, e) \<in> set (rooms g)" by (rule map_of_SomeD)
      then have er: "e \<in> set (refs g)" by (force simp: refs_def)
      have elt: "e < ?b" using inv_ids_ref_lt [OF ids er] .
      have nkb: "n \<noteq> ?kb" using e(1) fresh by auto
      have "\<not> (e = a \<and> OPPOSITE_DIRECTION d = dir)"
        using e(2) nodir by auto
      then have "map_of (connections (heap ?g' ! e)) (OPPOSITE_DIRECTION d) = Some (Some k)"
        using e(2) elt by (auto simp: conn)
      moreover have "map_of (rooms ?g') n = Some e"
        using e(1) nkb map_of_rooms_grow [OF ids, of a dir t r n] by simp
      ultimately show ?thesis by blast
    qed
  qed
  show ?thesis
    unfolding inv_bidir_def using goal by blast
qed

lemma gen_inv_rng [simp]: "gen_inv (g\<lparr>rng := r\<rparr>) = gen_inv g"
  by (simp add: gen_inv_def inv_ids_def inv_grid_def inv_bidir_def inv_plain_def inv_spawn_def refs_def)

lemma gen_inv_grow:
  assumes "gen_inv g" "a \<in> set (refs g)" "dir \<in> set (getAvailableDirections g a)" "t \<noteq> dead_end"
  shows "gen_inv (grow g a dir t r)"
proof -
  from assms(1) have i: "inv_ids g" "inv_grid g" "inv_bidir g" "inv_plain g" "inv_spawn g"
    by (simp_all add: gen_inv_def)
  show ?thesis
    unfolding gen_inv_def
    using inv_ids_grow [OF i(1)] inv_grid_grow [OF i(1,2) assms(3)]
      inv_bidir_grow [OF i(1,3) assms(2,3)] inv_plain_grow [OF i(1,4) assms(4)]
      inv_spawn_grow [OF i(1,5)]
    by simp
qed

lemma same_settings_refl [simp]: "same_settings g g"
  by (simp add: same_settings_def)

lemma same_settings_trans: "same_settings g g' \<Longrightarrow> same_settings g' g'' \<Longrightarrow> same_settings g g''"
  by (simp add: same_settings_def)

lemma same_settings_rng [simp]: "same_settings g (g\<lparr>rng := r\<rparr>)"
  by (simp add: same_settings_def)

lemma same_settings_grow [simp]: "same_settings g (grow g a dir t r)"
  by (simp add: same_settings_def)

lemma growth_loop_stop:
  "\<not> (int (length (rooms g)) < target \<and> fr \<noteq> []) \<Longrightarrow> growth_loop target g fr = Some (Inr (g, fr))"
  by (subst growth_loop.simps) auto

lemma growth_loop_shrink:
  assumes "int (length (rooms g)) < target" "fr \<noteq> []"
    and "pick fr (rng g) = (Some cur, r)"
    and "expandFrom (g\<lparr>rng := r\<rparr>) cur = Inr (None, g')"
  shows "growth_loop target g fr = growth_loop target g' (remove1 cur fr)"
  using assms by (subst growth_loop.simps) simp

lemma growth_loop_extend:
  assumes "int (length (rooms g)) < target" "fr \<noteq> []"
    and "pick fr (rng g) = (Some cur, r)"
    and "expandFrom (g\<lparr>rng := r\<rparr>) cur = Inr (Some b, g')"
  shows "growth_loop target g fr = growth_loop target g' (fr @ [b])"
  using assms by (subst growth_loop.simps) simp

lemma growth_loop_total:
  assumes "gen_inv g" "set fr \<subseteq> set (refs g)"
  shows "\<exists>g' fr'. growth_loop target g fr = Some (Inr (g', fr')) \<and>
           gen_inv g' \<and> set fr' \<subseteq> set (refs g') \<and> same_settings g g' \<and>
           \<not> (int (length (rooms g')) < target \<and> fr' \<noteq> []) \<and>
           length (rooms g) \<le> length (rooms g') \<and>
           int (length (rooms g')) \<le> max target (int (length (rooms g)))"
  using assms
proof (induction "2 * nat (target - int (length (rooms g))) + length fr" arbitrary: g fr rule: less_induct)
  case less
  show ?case
  proof (cases "int (length (rooms g)) < target \<and> fr \<noteq> []")
    case False
    with less.prems show ?thesis
      by (auto simp: growth_loop_stop)
  next
    case True
    then have lt: "int (length (rooms g)) < target" and ne: "fr \<noteq> []" by simp_all
    obtain cur where cur: "cur \<in> set fr" "pick fr (rng g) = (Some cur, snd (rng_next (rng g)))"
      using pick_cases [OF ne] by blast
    define g1 where "g1 = g\<lparr>rng := snd (rng_next (rng g))\<rparr>"
    have inv1: "gen_inv g1" using less.prems(1) by (simp add: g1_def)
    have cur_ref: "cur \<in> set (refs g1)" using cur(1) less.prems(2) by (auto simp: g1_def refs_def)
    have rooms1: "rooms g1 = rooms g" by (simp add: g1_def)
    have ss1: "same_settings g g1" by (simp add: g1_def)
    show ?thesis
    proof (cases "getAvailableDirections g1 cur = []")
      case True
      then have ex: "expandFrom g1 cur = Inr (None, g1)" by (rule expandFrom_empty)
      have eq: "growth_loop target g fr = growth_loop target g1 (remove1 cur fr)"
        using growth_loop_shrink [OF lt ne cur(2)] ex by (simp add: g1_def)
      have len: "length (remove1 cur fr) < length fr"
        using cur(1) ne by (simp add: length_remove1)
      have sub: "set (remove1 cur fr) \<subseteq> set (refs g1)"
        using less.prems(2) set_remove1_subset [of cur fr] by (auto simp: g1_def refs_def)
      have "2 * nat (target - int (length (rooms g1))) + length (remove1 cur fr)
            < 2 * nat (target - int (length (rooms g))) + length fr"
        using len rooms1 by simp
      from less.hyps [OF this inv1 sub]
      obtain g' fr' where r: "growth_loop target g1 (remove1 cur fr) = Some (Inr (g', fr'))"
        "gen_inv g'" "set fr' \<subseteq> set (refs g')" "same_settings g1 g'"
        "\<not> (int (length (rooms g')) < target \<and> fr' \<noteq> [])"
        "length (rooms g1) \<le> length (rooms g')"
        "int (length (rooms g')) \<le> max target (int (length (rooms g1)))"
        by blast
      from r eq rooms1 same_settings_trans [OF ss1 r(4)] show ?thesis
        by auto
    next
      case False
      have ids1: "inv_ids g1" using inv1 by (simp add: gen_inv_def)
      obtain dir t r where ex: "dir \<in> set (getAvailableDirections g1 cur)" "t \<noteq> dead_end"
        "expandFrom g1 cur = Inr (Some (length (heap g1)), grow g1 cur dir t r)"
        using expandFrom_grow [OF ids1 inv_ids_ref_lt [OF ids1 cur_ref] False] by blast
      define g2 where "g2 = grow g1 cur dir t r"
      have eq: "growth_loop target g fr = growth_loop target g2 (fr @ [length (heap g1)])"
        using growth_loop_extend [OF lt ne cur(2)] ex(3) by (simp add: g1_def g2_def)
      have inv2: "gen_inv g2"
        unfolding g2_def by (rule gen_inv_grow [OF inv1 cur_ref ex(1,2)])
      have sub: "set (fr @ [length (heap g1)]) \<subseteq> set (refs g2)"
        using less.prems(2) by (auto simp: g2_def g1_def refs_def)
      have rooms2: "length (rooms g2) = Suc (length (rooms g))"
        by (simp add: g2_def rooms1)
      have ss2: "same_settings g g2"
        using same_settings_trans [OF ss1, of g2] by (simp add: g2_def)
      have "2 * nat (target - int (length (rooms g2))) + length (fr @ [length (heap g1)])
            < 2 * nat (target - int (length (rooms g))) + length fr"
        using lt rooms2 by simp
      from less.hyps [OF this inv2 sub]
      obtain g' fr' where r: "growth_loop target g2 (fr @ [length (heap g1)]) = Some (Inr (g', fr'))"
        "gen_inv g'" "set fr' \<subseteq> set (refs g')" "same_settings g2 g'"
        "\<not> (int (length (rooms g')) < target \<and> fr' \<noteq> [])"
        "length (rooms g2) \<le> length (rooms g')"
        "int (length (rooms g')) \<le> max target (int (length (rooms g2)))"
        by blast
      have "int (length (rooms g')) \<le> max target (int (length (rooms g)))"
        using r(7) rooms2 lt by simp
      moreover have "length (rooms g) \<le> length (rooms g')"
        using r(6) rooms2 by simp
      ultimately show ?thesis
        using r(1,2,3,5) eq same_settings_trans [OF ss2 r(4)] by auto
    qed
  qed
qed

lemma special_step_cases:
  "(\<exists>r. special_step a g = g\<lparr>rng := r\<rparr>) \<or>
   (\<exists>r. is_dead_end_room (heap g ! a) \<and> treasureRoomCount g < 2 \<and>
        special_step a g = (reclassify g a treasure r)\<lparr>treasureRoomCount := Suc (treasureRoomCount g)\<rparr>) \<or>
   (\<exists>r. is_dead_end_room (heap g ! a) \<and> shrineRoomCount g < 1 \<and>
        special_step a g = (reclassify g a shrine r)\<lparr>shrineRoomCount := Suc (shrineRoomCount g)\<rparr>)"
proof (cases "is_dead_end_room (heap g ! a)")
  case False
  then have "special_step a g = g\<lparr>rng := rng g\<rparr>"
    by (auto simp: special_step_def is_dead_end_room_def)
  then show ?thesis by blast
next
  case True
  obtain c1 r1 where c1: "chance (treasureRoomChance (config g)) (rng g) = (c1, r1)"
    by (cases "chance (treasureRoomChance (config g)) (rng g)")
  obtain c2 r2 where c2: "chance (shrineRoomChance (config g)) r1 = (c2, r2)"
    by (cases "chance (shrineRoomChance (config g)) r1")
  consider (t) "c1 \<and> treasureRoomCount g < 2"
    | (s) "\<not> (c1 \<and> treasureRoomCount g < 2)" "c2 \<and> shrineRoomCount g < 1"
    | (n) "\<not> (c1 \<and> treasureRoomCount g < 2)" "\<not> (c2 \<and> shrineRoomCount g < 1)"
    by blast
  then show ?thesis
  proof cases
    case t
    have "special_step a g = (reclassify g a treasure r1)\<lparr>treasureRoomCount := Suc (treasureRoomCount g)\<rparr>"
      using True c1 t
      by (cases "a < length (heap g)")
         (simp_all add: special_step_def is_dead_end_room_def Let_def reclassify_def set_type_def
            set_group_def list_update_beyond)
    with True t show ?thesis by blast
  next
    case s
    have "special_step a g = (reclassify g a shrine r2)\<lparr>shrineRoomCount := Suc (shrineRoomCount g)\<rparr>"
      using True c1 c2 s
      by (cases "a < length (heap g)")
         (auto simp add: special_step_def is_dead_end_room_def Let_def reclassify_def set_type_def
            set_group_def list_update_beyond)
    with True s show ?thesis by blast
  next
    case n
    have "special_step a g = g\<lparr>rng := r2\<rparr>"
      using True c1 c2 n
      by (auto simp add: special_step_def is_dead_end_room_def Let_def)
    then show ?thesis by blast
  qed
qed

lemma createRoomGroup_frame:
  "same_frame room room' \<Longrightarrow> rp_type room' = rp_type room \<Longrightarrow>
   createRoomGroup mats room' v = createRoomGroup mats room v"
  by (cases "rp_type room") (simp_all add: createRoomGroup_def same_frame_def)

lemma room_rel_refl [simp]: "room_rel mats room room"
  by (simp add: room_rel_def same_frame_def)

lemma same_frame_trans: "same_frame r r' \<Longrightarrow> same_frame r' r'' \<Longrightarrow> same_frame r r''"
  by (simp add: same_frame_def)

lemma room_rel_trans:
  assumes "room_rel mats r r'" "room_rel mats r' r''"
  shows "room_rel mats r r''"
proof -
  have f: "same_frame r r''" "same_frame r' r''"
    using assms same_frame_trans by (auto simp: room_rel_def)
  from assms(2) consider
      (same) "rp_type r'' = rp_type r'" "group r'' = group r'"
    | (new) "rp_type r'' = dead_end"
        "group r'' = Some (createRoomGroup mats r'' (Some treasure)) \<or>
         group r'' = Some (createRoomGroup mats r'' (Some shrine))"
    by (auto simp: room_rel_def)
  then show ?thesis
  proof cases
    case same
    have "createRoomGroup mats r'' v = createRoomGroup mats r' v" for v
      using createRoomGroup_frame [OF f(2) same(1)] .
    with assms(1) same f(1) show ?thesis
      by (auto simp: room_rel_def)
  next
    case new
    with f(1) show ?thesis by (auto simp: room_rel_def)
  qed
qed

lemma pass_rel_refl [simp]: "pass_rel g g"
  by (simp add: pass_rel_def)

lemma pass_rel_trans:
  assumes "pass_rel g g'" "pass_rel g' g''"
  shows "pass_rel g g''"
proof -
  have "room_rel (materials g) (heap g ! c) (heap g'' ! c)" if "c < length (heap g)" for c
  proof -
    have "room_rel (materials g) (heap g ! c) (heap g' ! c)"
      using assms(1) that by (simp add: pass_rel_def)
    moreover have "room_rel (materials g) (heap g' ! c) (heap g'' ! c)"
      using assms that by (simp add: pass_rel_def)
    ultimately show ?thesis by (rule room_rel_trans)
  qed
  with assms show ?thesis by (simp add: pass_rel_def)
qed

lemma pass_rel_rng [simp]: "pass_rel g (g\<lparr>rng := r\<rparr>)"
  by (simp add: pass_rel_def)

lemma heap_reclassify:
  "heap (reclassify g a v r) ! c =
     (if c = a \<and> a < length (heap g)
      then (heap g ! a)\<lparr>rp_type := dead_end,
             group := Some (createRoomGroup (materials g) ((heap g ! a)\<lparr>rp_type := dead_end\<rparr>) (Some v))\<rparr>
      else heap g ! c)"
  by (cases "a < length (heap g)") (auto simp: reclassify_def list_update_beyond)

lemma misc_reclassify [simp]:
  "rooms (reclassify g a v r) = rooms g"
  "materials (reclassify g a v r) = materials g"
  "config (reclassify g a v r) = config g"
  "grid (reclassify g a v r) = grid g"
  "roomIdCounter (reclassify g a v r) = roomIdCounter g"
  "treasureRoomCount (reclassify g a v r) = treasureRoomCount g"
  "shrineRoomCount (reclassify g a v r) = shrineRoomCount g"
  "length (heap (reclassify g a v r)) = length (heap g)"
  by (simp_all add: reclassify_def)

lemma createRoomGroup_regroup:
  "createRoomGroup mats (room\<lparr>rp_type := dead_end, group := grp\<rparr>) v =
   createRoomGroup mats (room\<lparr>rp_type := dead_end\<rparr>) v"
  by (simp add: createRoomGroup_def)

lemma pass_rel_reclassify:
  assumes "v = treasure \<or> v = shrine"
  shows "pass_rel g (reclassify g a v r)"
  using assms
  by (auto simp: pass_rel_def heap_reclassify room_rel_def same_frame_def createRoomGroup_regroup)

lemma pass_rel_counts [simp]:
  "pass_rel g (g'\<lparr>treasureRoomCount := n\<rparr>) = pass_rel g g'"
  "pass_rel g (g'\<lparr>shrineRoomCount := n\<rparr>) = pass_rel g g'"
  by (simp_all add: pass_rel_def)

lemma pass_rel_special_step: "pass_rel g (special_step a g)"
  using special_step_cases [of a g] by (auto simp: pass_rel_reclassify)

lemma pass_rel_special_loop: "pass_rel g (special_loop xs g)"
proof (induction xs arbitrary: g)
  case Nil
  show ?case by simp
next
  case (Cons x xs)
  obtain k a where x: "x = (k, a)" by (cases x)
  show ?case
    using pass_rel_trans [OF pass_rel_special_step [of g a] Cons.IH [of "special_step a g"]]
    by (simp add: x)
qed

lemma pass_rel_addSpecialRooms: "pass_rel g (addSpecialRooms g)"
  by (simp add: addSpecialRooms_def pass_rel_special_loop)

lemma pass_rel_frame:
  assumes "pass_rel g g'" "a < length (heap g)"
  shows "same_frame (heap g ! a) (heap g' ! a)"
  using assms by (simp add: pass_rel_def room_rel_def)

lemma gen_inv_pass:
  assumes "pass_rel g g'" "inv_ids g" "inv_grid g" "inv_bidir g"
  shows "inv_ids g' \<and> inv_grid g' \<and> inv_bidir g'"
proof -
  have r: "rooms g' = rooms g" "refs g' = refs g" "length (heap g') = length (heap g)"
    "roomIdCounter g' = roomIdCounter g" "grid g' = grid g"
    using assms(1) by (simp_all add: pass_rel_def refs_def)
  have fr: "same_frame (heap g ! a) (heap g' ! a)" if "a \<in> set (refs g)" for a
    using pass_rel_frame [OF assms(1) inv_ids_ref_lt [OF assms(2) that]] .
  have occ: "isOccupied g' x z = isOccupied g x z" for x z
    by (simp add: isOccupied_def r)
  have ids: "inv_ids g'"
  proof -
    have "a < length (heap g) \<and> rp_id (heap g' ! a) = k" if "(k, a) \<in> set (rooms g)" for k a
    proof -
      from that have "a \<in> set (refs g)" by (force simp: refs_def)
      from fr [OF this] inv_ids_ref_lt [OF assms(2) this] inv_ids_key [OF assms(2) that]
      show ?thesis by (simp add: same_frame_def)
    qed
    with assms(2) show ?thesis unfolding inv_ids_def r by auto
  qed
  have m: "map (\<lambda>a. (gridX (heap g' ! a), gridZ (heap g' ! a))) (refs g)
         = map (\<lambda>a. (gridX (heap g ! a), gridZ (heap g ! a))) (refs g)"
    by (rule map_cong) (use fr in \<open>simp_all add: same_frame_def\<close>)
  have grid: "inv_grid g'"
    using assms(3) fr unfolding inv_grid_def r occ m
    by (auto simp: same_frame_def)
  have conn: "connections (heap g' ! a) = connections (heap g ! a)" if "a \<in> set (refs g)" for a
    using fr [OF that] by (simp add: same_frame_def)
  have bidir: "inv_bidir g'"
    unfolding inv_bidir_def r
  proof (clarify)
    fix k a d n
    assume ka: "(k, a) \<in> set (rooms g)"
      and c: "map_of (connections (heap g' ! a)) d = Some (Some n)"
    from ka have a: "a \<in> set (refs g)" by (force simp: refs_def)
    with c conn have "map_of (connections (heap g ! a)) d = Some (Some n)" by simp
    with assms(4) ka obtain b where b: "map_of (rooms g) n = Some b"
      "map_of (connections (heap g ! b)) (OPPOSITE_DIRECTION d) = Some (Some k)"
      unfolding inv_bidir_def by blast
    from b(1) have "b \<in> set (refs g)" by (force simp: refs_def dest: map_of_SomeD)
    with b conn show "\<exists>b. map_of (rooms g) n = Some b \<and>
        map_of (connections (heap g' ! b)) (OPPOSITE_DIRECTION d) = Some (Some k)"
      by auto
  qed
  from ids grid bidir show ?thesis by blast
qed

lemma group_variant_reclassified [simp]:
  "group_variant (room\<lparr>rp_type := dead_end,
      group := Some (createRoomGroup mats (room\<lparr>rp_type := dead_end\<rparr>) (Some v))\<rparr>) = Some v"
  by (simp add: group_variant_def createRoomGroup_def)

lemma special_step_effect:
  assumes "a < length (heap g)" "group_variant (heap g ! a) = None"
  defines "g' \<equiv> special_step a g"
  shows "(\<forall>c. c \<noteq> a \<longrightarrow> heap g' ! c = heap g ! c)"
    and "length (heap g') = length (heap g)"
    and "treasureRoomCount g' =
           treasureRoomCount g + (if group_variant (heap g' ! a) = Some treasure then 1 else 0)"
    and "shrineRoomCount g' =
           shrineRoomCount g + (if group_variant (heap g' ! a) = Some shrine then 1 else 0)"
    and "treasureRoomCount g' \<le> max 2 (treasureRoomCount g)"
    and "shrineRoomCount g' \<le> max 1 (shrineRoomCount g)"
    and "group_variant (heap g' ! a) \<noteq> None \<longrightarrow>
           is_dead_end_room (heap g ! a) \<and>
           (group_variant (heap g' ! a) = Some treasure \<or> group_variant (heap g' ! a) = Some shrine)"
proof -
  from special_step_cases [of a g] consider
      (u) r where "g' = g\<lparr>rng := r\<rparr>"
    | (t) r where "is_dead_end_room (heap g ! a)" "treasureRoomCount g < 2"
        "g' = (reclassify g a treasure r)\<lparr>treasureRoomCount := Suc (treasureRoomCount g)\<rparr>"
    | (s) r where "is_dead_end_room (heap g ! a)" "shrineRoomCount g < 1"
        "g' = (reclassify g a shrine r)\<lparr>shrineRoomCount := Suc (shrineRoomCount g)\<rparr>"
    unfolding g'_def by blast
  then have "(\<forall>c. c \<noteq> a \<longrightarrow> heap g' ! c = heap g ! c) \<and>
    length (heap g') = length (heap g) \<and>
    treasureRoomCount g' =
           treasureRoomCount g + (if group_variant (heap g' ! a) = Some treasure then 1 else 0) \<and>
    shrineRoomCount g' =
           shrineRoomCount g + (if group_variant (heap g' ! a) = Some shrine then 1 else 0) \<and>
    treasureRoomCount g' \<le> max 2 (treasureRoomCount g) \<and>
    shrineRoomCount g' \<le> max 1 (shrineRoomCount g) \<and>
    (group_variant (heap g' ! a) \<noteq> None \<longrightarrow>
           is_dead_end_room (heap g ! a) \<and>
           (group_variant (heap g' ! a) = Some treasure \<or> group_variant (heap g' ! a) = Some shrine))"
  proof cases
    case u
    with assms(2) show ?thesis by simp
  next
    case t
    with assms(1) show ?thesis by (simp add: heap_reclassify)
  next
    case s
    with assms(1) show ?thesis by (simp add: heap_reclassify)
  qed
  then show "(\<forall>c. c \<noteq> a \<longrightarrow> heap g' ! c = heap g ! c)"
    and "length (heap g') = length (heap g)"
    and "treasureRoomCount g' =
           treasureRoomCount g + (if group_variant (heap g' ! a) = Some treasure then 1 else 0)"
    and "shrineRoomCount g' =
           shrineRoomCount g + (if group_variant (heap g' ! a) = Some shrine then 1 else 0)"
    and "treasureRoomCount g' \<le> max 2 (treasureRoomCount g)"
    and "shrineRoomCount g' \<le> max 1 (shrineRoomCount g)"
    and "group_variant (heap g' ! a) \<noteq> None \<longrightarrow>
           is_dead_end_room (heap g ! a) \<and>
           (group_variant (heap g' ! a) = Some treasure \<or> group_variant (heap g' ! a) = Some shrine)"
    by blast+
qed

lemma special_loop_counts:
  assumes "distinct (map snd xs)"
    and "\<forall>a \<in> snd ` set xs. a < length (heap g) \<and> group_variant (heap g ! a) = None"
  shows "treasureRoomCount (special_loop xs g) =
           treasureRoomCount g + variant_count treasure (special_loop xs g) xs \<and>
         shrineRoomCount (special_loop xs g) =
           shrineRoomCount g + variant_count shrine (special_loop xs g) xs \<and>
         treasureRoomCount (special_loop xs g) \<le> max 2 (treasureRoomCount g) \<and>
         shrineRoomCount (special_loop xs g) \<le> max 1 (shrineRoomCount g) \<and>
         (\<forall>a \<in> snd ` set xs. group_variant (heap (special_loop xs g) ! a) \<noteq> None \<longrightarrow>
            is_dead_end_room (heap g ! a) \<and>
            (group_variant (heap (special_loop xs g) ! a) = Some treasure \<or>
             group_variant (heap (special_loop xs g) ! a) = Some shrine)) \<and>
         (\<forall>c. c \<notin> snd ` set xs \<longrightarrow> heap (special_loop xs g) ! c = heap g ! c)"
  using assms
proof (induction xs arbitrary: g)
  case Nil
  show ?case by (simp add: variant_count_def)
next
  case (Cons x xs)
  obtain k a where x: "x = (k, a)" by (cases x)
  define g1 where "g1 = special_step a g"
  define g' where "g' = special_loop xs g1"
  have a: "a < length (heap g)" "group_variant (heap g ! a) = None" "a \<notin> snd ` set xs"
    using Cons.prems by (auto simp: x)
  note st = special_step_effect [OF a(1,2), folded g1_def]
  have old: "heap g1 ! c = heap g ! c" if "c \<in> snd ` set xs" for c
    using st(1) that a(3) by auto
  have pre: "distinct (map snd xs)"
    "\<forall>c \<in> snd ` set xs. c < length (heap g1) \<and> group_variant (heap g1 ! c) = None"
    using Cons.prems st(2) old by (simp_all add: x)
  note ih = Cons.IH [OF pre, folded g'_def]
  have fin: "special_loop (x # xs) g = g'"
    by (simp add: x g'_def g1_def)
  have ga: "heap g' ! a = heap g1 ! a"
    using ih a(3) by blast
  have vc: "variant_count v g' (x # xs) =
      (if group_variant (heap g1 ! a) = Some v then 1 else 0) + variant_count v g' xs" for v
    by (simp add: variant_count_def x ga)
  have 1: "treasureRoomCount g' = treasureRoomCount g + variant_count treasure g' (x # xs)"
    using ih st(3) by (simp add: vc)
  have 2: "shrineRoomCount g' = shrineRoomCount g + variant_count shrine g' (x # xs)"
    using ih st(4) by (simp add: vc)
  have 3: "treasureRoomCount g' \<le> max 2 (treasureRoomCount g)"
    using ih st(5) by auto
  have 4: "shrineRoomCount g' \<le> max 1 (shrineRoomCount g)"
    using ih st(6) by auto
  have 5: "\<forall>c \<in> snd ` set (x # xs). group_variant (heap g' ! c) \<noteq> None \<longrightarrow>
            is_dead_end_room (heap g ! c) \<and>
            (group_variant (heap g' ! c) = Some treasure \<or> group_variant (heap g' ! c) = Some shrine)"
  proof
    fix c assume "c \<in> snd ` set (x # xs)"
    then consider "c = a" | "c \<in> snd ` set xs" by (auto simp: x)
    then show "group_variant (heap g' ! c) \<noteq> None \<longrightarrow>
            is_dead_end_room (heap g ! c) \<and>
            (group_variant (heap g' ! c) = Some treasure \<or> group_variant (heap g' ! c) = Some shrine)"
    proof cases
      case 1
      with st(7) ga show ?thesis by simp
    next
      case 2
      with ih old [OF 2] show ?thesis by auto
    qed
  qed
  have 6: "\<forall>c. c \<notin> snd ` set (x # xs) \<longrightarrow> heap g' ! c = heap g ! c"
    using ih st(1) by (auto simp: x)
  from 1 2 3 4 5 6 show ?case unfolding fin by blast
qed

lemma generate_reset_fields [simp]:
  "config (generate_reset g) = config g"
  "rng (generate_reset g) = rng g"
  by (simp_all add: generate_reset_def)

lemma generate_trace_unfold:
  "generate_trace g =
     (case growth_loop (drawn_target g) (seeded g) [length (heap g)] of
        None \<Rightarrow> None
      | Some (Inl e) \<Rightarrow> Some (Inl e)
      | Some (Inr (g4, fr)) \<Rightarrow>
          Some (Inr (Generated (drawn_target g) g4 fr (addSpecialRooms g4))))"
proof -
  obtain target r where n: "nextInt (minRooms (config g)) (maxRooms (config g) + 1) (rng g) = (target, r)"
    by (cases "nextInt (minRooms (config g)) (maxRooms (config g) + 1) (rng g)")
  have t: "drawn_target g = target"
    by (simp add: drawn_target_def n)
  obtain g2 where p: "placeRoom ((generate_reset g)\<lparr>rng := r\<rparr>) 0 0 junction = (Some (length (heap g)), g2)"
    and g3: "set_group g2 (length (heap g)) (createRoomGroup (materials g2) (heap g2 ! length (heap g)) None)
             = seeded g"
  proof -
    have free: "\<not> isOccupied ((generate_reset g)\<lparr>rng := r\<rparr>) 0 0"
      by (simp add: isOccupied_def generate_reset_def)
    have 1: "fst (placeRoom ((generate_reset g)\<lparr>rng := r\<rparr>) 0 0 junction) = Some (length (heap g))"
      unfolding placeRoom_free [OF free] by (simp add: generate_reset_def)
    have 2: "set_group (snd (placeRoom ((generate_reset g)\<lparr>rng := r\<rparr>) 0 0 junction)) (length (heap g))
        (createRoomGroup (materials (snd (placeRoom ((generate_reset g)\<lparr>rng := r\<rparr>) 0 0 junction)))
           (heap (snd (placeRoom ((generate_reset g)\<lparr>rng := r\<rparr>) 0 0 junction)) ! length (heap g)) None)
        = seeded g"
      unfolding placeRoom_free [OF free]
      by (simp add: generate_reset_def seeded_def spawn_room_def set_group_def map_set_def n)
    from 1 2 that show ?thesis by (metis prod.collapse)
  qed
  show ?thesis
    unfolding generate_trace_def Let_def generate_reset_fields n prod.case p option.case g3 t ..
qed

lemma gen_inv_seeded: "gen_inv (seeded g)"
proof -
  have 1: "inv_ids (seeded g)"
    by (simp add: inv_ids_def seeded_def spawn_room_def Let_def)
  have 2: "inv_grid (seeded g)"
    by (simp add: inv_grid_def refs_def seeded_def spawn_room_def Let_def isOccupied_def)
  have 3: "inv_bidir (seeded g)"
    by (simp add: inv_bidir_def seeded_def spawn_room_def Let_def)
  have 4: "inv_plain (seeded g)"
    by (simp add: inv_plain_def refs_def seeded_def spawn_room_def Let_def group_variant_def
        createRoomGroup_def)
  have 5: "inv_spawn (seeded g)"
    by (simp add: inv_spawn_def seeded_def spawn_room_def Let_def)
  from 1 2 3 4 5 show ?thesis by (simp add: gen_inv_def)
qed

lemma seeded_fields [simp]:
  "rooms (seeded g) = [(room_name 0, length (heap g))]"
  "refs (seeded g) = [length (heap g)]"
  "config (seeded g) = config g"
  "materials (seeded g) = materials g"
  "treasureRoomCount (seeded g) = 0"
  "shrineRoomCount (seeded g) = 0"
  by (simp_all add: seeded_def refs_def)

lemma generate_trace_total:
  "\<exists>g4 fr. generate_trace g = Some (Inr (Generated (drawn_target g) g4 fr (addSpecialRooms g4))) \<and>
     gen_inv g4 \<and> set fr \<subseteq> set (refs g4) \<and>
     config g4 = config g \<and> materials g4 = materials g \<and>
     treasureRoomCount g4 = 0 \<and> shrineRoomCount g4 = 0 \<and>
     \<not> (int (length (rooms g4)) < drawn_target g \<and> fr \<noteq> []) \<and>
     1 \<le> length (rooms g4) \<and>
     int (length (rooms g4)) \<le> max (drawn_target g) 1"
proof -
  have sub: "set [length (heap g)] \<subseteq> set (refs (seeded g))" by simp
  from growth_loop_total [OF gen_inv_seeded sub, of "drawn_target g"]
  obtain g4 fr where r: "growth_loop (drawn_target g) (seeded g) [length (heap g)] = Some (Inr (g4, fr))"
    "gen_inv g4" "set fr \<subseteq> set (refs g4)" "same_settings (seeded g) g4"
    "\<not> (int (length (rooms g4)) < drawn_target g \<and> fr \<noteq> [])"
    "length (rooms (seeded g)) \<le> length (rooms g4)"
    "int (length (rooms g4)) \<le> max (drawn_target g) (int (length (rooms (seeded g))))"
    by blast
  have "generate_trace g = Some (Inr (Generated (drawn_target g) g4 fr (addSpecialRooms g4)))"
    by (simp add: generate_trace_unfold r(1))
  with r(2-7) show ?thesis
    by (auto simp: same_settings_def)
qed

lemmas eval_defs = generate_trace_def generate_reset_def placeRoom_def isOccupied_def
  markOccupied_def nextRoomId_def gridKey_def show_int_def nextInt_def rng_next_def chance_def pick_def
  set_group_def set_connection_def set_type_def createRoomGroup_def addSpecialRooms_def special_step_def
  connectionCount_def expandFrom_def chooseRoomType_def getAvailableDirections_def map_set_def map_has_def
  map_get_def DungeonGenerator_new_def TILE_SIZE_def room_map_def trace_view_def

lemma show_nat_0: "show_nat 0 = ''0''"
  by code_simp

lemma show_nat_1: "show_nat (Suc 0) = ''1''" "show_nat 1 = ''1''"
  by code_simp+

lemmas show_nat_small = show_nat_0 show_nat_1

lemma eval_demo:
  "map_option (map_sum id trace_view) (generate_trace demo_generator) =
   Some (Inr (Some (2,
     [(''room_0'',
       \<lparr>rp_id = ''room_0'', rp_type = junction, gridX = 0, gridZ = 0,
          worldX = 0, worldZ = 0, connections = [(east, Some ''room_1'')],
          group = Some \<lparr>geometry = JunctionRoom \<lparr>floor_material = 0, wall_material = 1\<rparr>,
                position = (0, 0, 0), ud_roomId = ''room_0'', ud_gridX = 0, ud_gridZ = 0\<rparr>\<rparr>),
      (''room_1'',
       \<lparr>rp_id = ''room_1'', rp_type = basic, gridX = 1, gridZ = 0,
          worldX = 3, worldZ = 0, connections = [(west, Some ''room_0'')],
          group = Some \<lparr>geometry = BasicRoom \<lparr>floor_material = 0, wall_material = 1\<rparr>,
                position = (3, 0, 0), ud_roomId = ''room_1'', ud_gridX = 1, ud_gridZ = 0\<rparr>\<rparr>)],
     [0, 1],
     [(''room_0'',
       \<lparr>rp_id = ''room_0'', rp_type = junction, gridX = 0, gridZ = 0,
          worldX = 0, worldZ = 0, connections = [(east, Some ''room_1'')],
          group = Some \<lparr>geometry = JunctionRoom \<lparr>floor_material = 0, wall_material = 1\<rparr>,
                position = (0, 0, 0), ud_roomId = ''room_0'', ud_gridX = 0, ud_gridZ = 0\<rparr>\<rparr>),
      (''room_1'',
       \<lparr>rp_id = ''room_1'', rp_type = dead_end, gridX = 1, gridZ = 0,
          worldX = 3, worldZ = 0, connections = [(west, Some ''room_0'')],
          group = Some \<lparr>geometry = DeadEndRoom \<lparr>floor_material = 0, wall_material = 1\<rparr> west treasure,
                position = (3, 0, 0), ud_roomId = ''room_1'', ud_gridX = 1, ud_gridZ = 0\<rparr>\<rparr>)],
     1, 0)))"
  unfolding demo_generator_def demo_config_def
  apply (simp add: eval_defs Let_def show_nat_small)
  apply (subst growth_loop.simps)
  apply (simp add: eval_defs Let_def show_nat_small)
  apply (subst growth_loop.simps)
  apply (simp add: eval_defs Let_def show_nat_small)
  done

lemma length_room_map [simp]: "length (room_map g) = length (rooms g)"
  by (simp add: room_map_def)

lemma coords_room_map:
  "map (\<lambda>(k, room). (gridX room, gridZ room)) (room_map g) =
   map (\<lambda>a. (gridX (heap g ! a), gridZ (heap g ! a))) (refs g)"
  by (simp add: room_map_def refs_def split_beta)

lemma map_of_room_map: "map_of (room_map g) n = map_option (\<lambda>a. heap g ! a) (map_of (rooms g) n)"
  by (induction "rooms g" arbitrary: g) (auto simp: room_map_def map_of_map split_beta)

lemma in_room_map: "(k, room) \<in> set (room_map g) \<longleftrightarrow> (\<exists>a. (k, a) \<in> set (rooms g) \<and> room = heap g ! a)"
  by (auto simp: room_map_def)

lemma list_all2_room_map:
  assumes "rooms g' = rooms g"
  shows "list_all2 P (room_map g) (room_map g') \<longleftrightarrow>
         (\<forall>(k, a) \<in> set (rooms g). P (k, heap g ! a) (k, heap g' ! a))"
  by (simp add: room_map_def assms list_all2_map1 list_all2_map2 list_all2_same split_beta)

lemma generate_trace_final:
  "\<exists>target g4 fr g5. generate_trace g = Some (Inr (Generated target g4 fr g5)) \<and>
     target = drawn_target g \<and> g5 = addSpecialRooms g4 \<and> pass_rel g4 g5 \<and>
     gen_inv g4 \<and> inv_ids g5 \<and> inv_grid g5 \<and> inv_bidir g5 \<and>
     set fr \<subseteq> set (refs g4) \<and>
     config g4 = config g \<and> materials g4 = materials g \<and>
     treasureRoomCount g4 = 0 \<and> shrineRoomCount g4 = 0 \<and>
     \<not> (int (length (rooms g4)) < target \<and> fr \<noteq> []) \<and>
     1 \<le> length (rooms g4) \<and> int (length (rooms g4)) \<le> max target 1 \<and>
     rooms g5 = rooms g4"
proof -
  from generate_trace_total [of g] obtain g4 fr where
    r: "generate_trace g = Some (Inr (Generated (drawn_target g) g4 fr (addSpecialRooms g4)))"
    "gen_inv g4" "set fr \<subseteq> set (refs g4)" "config g4 = config g" "materials g4 = materials g"
    "treasureRoomCount g4 = 0" "shrineRoomCount g4 = 0"
    "\<not> (int (length (rooms g4)) < drawn_target g \<and> fr \<noteq> [])"
    "1 \<le> length (rooms g4)" "int (length (rooms g4)) \<le> max (drawn_target g) 1"
    by blast
  have p: "pass_rel g4 (addSpecialRooms g4)" by (rule pass_rel_addSpecialRooms)
  from gen_inv_pass [OF p] r(2)
  have i: "inv_ids (addSpecialRooms g4)" "inv_grid (addSpecialRooms g4)" "inv_bidir (addSpecialRooms g4)"
    by (simp_all add: gen_inv_def)
  have "rooms (addSpecialRooms g4) = rooms g4" using p by (simp add: pass_rel_def)
  with r p i show ?thesis by blast
qed

lemma pass_special_rooms:
  assumes inv: "gen_inv g" and ka: "(k, a) \<in> set (rooms g)"
  shows "group_variant (heap (addSpecialRooms g) ! a) \<noteq> None \<longrightarrow>
           (group_variant (heap (addSpecialRooms g) ! a) = Some treasure \<or>
            group_variant (heap (addSpecialRooms g) ! a) = Some shrine) \<and>
           rp_type (heap (addSpecialRooms g) ! a) = dead_end \<and>
           connectionCount (heap g ! a) = 1 \<and> rp_type (heap g ! a) \<noteq> junction"
    and "group_variant (heap (addSpecialRooms g) ! a) = None \<longrightarrow>
           rp_type (heap (addSpecialRooms g) ! a) = rp_type (heap g ! a)"
proof -
  let ?g' = "addSpecialRooms g"
  have ids: "inv_ids g" and pl: "inv_plain g" using inv by (simp_all add: gen_inv_def)
  have d: "distinct (map snd (rooms g))" using ids by (simp add: inv_ids_def)
  have pre: "\<forall>a \<in> snd ` set (rooms g). a < length (heap g) \<and> group_variant (heap g ! a) = None"
    using pl inv_ids_ref_lt [OF ids] by (auto simp: inv_plain_def refs_def)
  note cnt = special_loop_counts [OF d pre, folded addSpecialRooms_def]
  from ka have a: "a \<in> snd ` set (rooms g)" by force
  have lt: "a < length (heap g)" using pre a by blast
  have rel: "room_rel (materials g) (heap g ! a) (heap ?g' ! a)"
    using pass_rel_addSpecialRooms [of g] lt by (simp add: pass_rel_def)
  show "group_variant (heap ?g' ! a) \<noteq> None \<longrightarrow>
           (group_variant (heap ?g' ! a) = Some treasure \<or>
            group_variant (heap ?g' ! a) = Some shrine) \<and>
           rp_type (heap ?g' ! a) = dead_end \<and>
           connectionCount (heap g ! a) = 1 \<and> rp_type (heap g ! a) \<noteq> junction"
  proof
    assume v: "group_variant (heap ?g' ! a) \<noteq> None"
    from cnt a v have 1: "is_dead_end_room (heap g ! a)"
      "group_variant (heap ?g' ! a) = Some treasure \<or> group_variant (heap ?g' ! a) = Some shrine"
      by blast+
    have "group (heap ?g' ! a) \<noteq> group (heap g ! a)"
      using v pre a by (auto simp: group_variant_def)
    with rel have "rp_type (heap ?g' ! a) = dead_end"
      by (auto simp: room_rel_def)
    with 1 show "(group_variant (heap ?g' ! a) = Some treasure \<or>
            group_variant (heap ?g' ! a) = Some shrine) \<and>
           rp_type (heap ?g' ! a) = dead_end \<and>
           connectionCount (heap g ! a) = 1 \<and> rp_type (heap g ! a) \<noteq> junction"
      by (simp add: is_dead_end_room_def)
  qed
  show "group_variant (heap ?g' ! a) = None \<longrightarrow> rp_type (heap ?g' ! a) = rp_type (heap g ! a)"
    using rel by (auto simp: room_rel_def group_variant_def createRoomGroup_def)
qed

lemma eval_demo_trace:
  assumes "generate_trace demo_generator = Some (Inr t)"
  shows "trace_view t = Some (2,
     [(''room_0'',
       \<lparr>rp_id = ''room_0'', rp_type = junction, gridX = 0, gridZ = 0,
          worldX = 0, worldZ = 0, connections = [(east, Some ''room_1'')],
          group = Some \<lparr>geometry = JunctionRoom \<lparr>floor_material = 0, wall_material = 1\<rparr>,
                position = (0, 0, 0), ud_roomId = ''room_0'', ud_gridX = 0, ud_gridZ = 0\<rparr>\<rparr>),
      (''room_1'',
       \<lparr>rp_id = ''room_1'', rp_type = basic, gridX = 1, gridZ = 0,
          worldX = 3, worldZ = 0, connections = [(west, Some ''room_0'')],
          group = Some \<lparr>geometry = BasicRoom \<lparr>floor_material = 0, wall_material = 1\<rparr>,
                position = (3, 0, 0), ud_roomId = ''room_1'', ud_gridX = 1, ud_gridZ = 0\<rparr>\<rparr>)],
     [0, 1],
     [(''room_0'',
       \<lparr>rp_id = ''room_0'', rp_type = junction, gridX = 0, gridZ = 0,
          worldX = 0, worldZ = 0, connections = [(east, Some ''room_1'')],
          group = Some \<lparr>geometry = JunctionRoom \<lparr>floor_material = 0, wall_material = 1\<rparr>,
                position = (0, 0, 0), ud_roomId = ''room_0'', ud_gridX = 0, ud_gridZ = 0\<rparr>\<rparr>),
      (''room_1'',
       \<lparr>rp_id = ''room_1'', rp_type = dead_end, gridX = 1, gridZ = 0,
          worldX = 3, worldZ = 0, connections = [(west, Some ''room_0'')],
          group = Some \<lparr>geometry = DeadEndRoom \<lparr>floor_material = 0, wall_material = 1\<rparr> west treasure,
                position = (3, 0, 0), ud_roomId = ''room_1'', ud_gridX = 1, ud_gridZ = 0\<rparr>\<rparr>)],
     1, 0)"
  using eval_demo assms by simp

lemma trace_view_Generated:
  "trace_view (Generated target g4 fr g5) =
     Some (target, room_map g4, fr, room_map g5, treasureRoomCount g5, shrineRoomCount g5)"
  by (simp add: trace_view_def)

lemma generate_Some:
  "generate g = Some (Inr g') \<longleftrightarrow> (\<exists>t. generate_trace g = Some (Inr t) \<and> g' = trace_final t)"
  by (cases "generate_trace g"; cases "the (generate_trace g)") (auto simp: generate_def)

lemma eval_demo_final:
  assumes "generate demo_generator = Some (Inr g')"
  shows "room_map g' =
     [(''room_0'',
       \<lparr>rp_id = ''room_0'', rp_type = junction, gridX = 0, gridZ = 0,
          worldX = 0, worldZ = 0, connections = [(east, Some ''room_1'')],
          group = Some \<lparr>geometry = JunctionRoom \<lparr>floor_material = 0, wall_material = 1\<rparr>,
                position = (0, 0, 0), ud_roomId = ''room_0'', ud_gridX = 0, ud_gridZ = 0\<rparr>\<rparr>),
      (''room_1'',
       \<lparr>rp_id = ''room_1'', rp_type = dead_end, gridX = 1, gridZ = 0,
          worldX = 3, worldZ = 0, connections = [(west, Some ''room_0'')],
          group = Some \<lparr>geometry = DeadEndRoom \<lparr>floor_material = 0, wall_material = 1\<rparr> west treasure,
                position = (3, 0, 0), ud_roomId = ''room_1'', ud_gridX = 1, ud_gridZ = 0\<rparr>\<rparr>)]"
proof -
  from assms obtain t where t: "generate_trace demo_generator = Some (Inr t)" "g' = trace_final t"
    by (auto simp: generate_Some)
  from eval_demo_trace [OF t(1)] t(2) show ?thesis
    by (cases t) (simp_all add: trace_view_def)
qed

text \<open>
  C2 (no overlap). \<open>generate\<close> returns, and no two entries of the room map it returns
  have the same grid coordinates; and \<open>placeRoom\<close> on an occupied cell returns null and
  leaves the generator as it was.
\<close>

theorem no_overlap:
  "(\<exists>g'. generate g = Some (Inr g') \<and>
         distinct (map (\<lambda>(k, room). (gridX room, gridZ room)) (room_map g'))) \<and>
   (\<forall>g1 x z ty. isOccupied g1 x z \<longrightarrow> placeRoom g1 x z ty = (None, g1))"
proof -
  from generate_trace_final [of g] obtain target g4 fr g5 where
    t: "generate_trace g = Some (Inr (Generated target g4 fr g5))" and i: "inv_grid g5"
    by blast
  have "distinct (map (\<lambda>(k, room). (gridX room, gridZ room)) (room_map g5))"
    using i by (simp add: coords_room_map inv_grid_def)
  moreover have "generate g = Some (Inr g5)"
    using t by (simp add: generate_def)
  ultimately have "\<exists>g'. generate g = Some (Inr g') \<and>
        distinct (map (\<lambda>(k, room). (gridX room, gridZ room)) (room_map g'))"
    by blast
  moreover have "\<forall>g1 x z ty. isOccupied g1 x z \<longrightarrow> placeRoom g1 x z ty = (None, g1)"
    by (simp add: placeRoom_def)
  ultimately show ?thesis by blast
qed

theorem no_overlap_witness:
  "(\<exists>g'. generate demo_generator = Some (Inr g') \<and>
        map (\<lambda>(k, room). (gridX room, gridZ room)) (room_map g') = [(0, 0), (1, 0)] \<and>
        distinct (map (\<lambda>(k, room). (gridX room, gridZ room)) (room_map g'))) \<and>
   isOccupied (snd (placeRoom demo_generator 0 0 junction)) 0 0 \<and>
   placeRoom (snd (placeRoom demo_generator 0 0 junction)) 0 0 basic = (None, snd (placeRoom demo_generator 0 0 junction))"
proof -
  from no_overlap [of demo_generator] obtain g' where
    t: "generate demo_generator = Some (Inr g')"
      "distinct (map (\<lambda>(k, room). (gridX room, gridZ room)) (room_map g'))"
    and p: "\<forall>g1 x z ty. isOccupied g1 x z \<longrightarrow> placeRoom g1 x z ty = (None, g1)"
    by blast
  have m: "map (\<lambda>(k, room). (gridX room, gridZ room)) (room_map g') = [(0, 0), (1, 0)]"
    by (simp add: eval_demo_final [OF t(1)])
  have occ: "isOccupied (snd (placeRoom demo_generator 0 0 junction)) 0 0"
    by (simp add: demo_generator_def demo_config_def DungeonGenerator_new_def placeRoom_def isOccupied_def markOccupied_def
          nextRoomId_def Let_def)
  have pl: "placeRoom (snd (placeRoom demo_generator 0 0 junction)) 0 0 basic = (None, snd (placeRoom demo_generator 0 0 junction))"
    using p occ by blast
  show ?thesis
    by (intro conjI exI [of _ g']) (fact t m occ pl)+
qed

text \<open>
  C3 (bidirectional connections). \<open>generate\<close> returns, and in the room map it returns,
  whenever the connection map of a room \<open>R\<close> sends a direction \<open>d\<close> to an id \<open>n\<close> that is
  not null, the map has a room under \<open>n\<close>, with id \<open>n\<close>, whose connection map sends the opposite
  direction to the id of \<open>R\<close>: south for north, north for south, west for east and east for
  west.
\<close>

theorem bidirectional_connections:
  "\<exists>g'. generate g = Some (Inr g') \<and>
     (\<forall>k room d n.
        (k, room) \<in> set (room_map g') \<and> map_get (connections room) d = Some (Some n) \<longrightarrow>
        (\<exists>room'. map_get (room_map g') n = Some room' \<and> rp_id room' = n \<and>
           map_get (connections room')
             (case d of north \<Rightarrow> south | south \<Rightarrow> north | east \<Rightarrow> west | west \<Rightarrow> east) =
             Some (Some (rp_id room))))"
proof -
  from generate_trace_final [of g] obtain target g4 fr g5 where
    t: "generate_trace g = Some (Inr (Generated target g4 fr g5))"
    and ids: "inv_ids g5" and bi: "inv_bidir g5"
    by blast
  have opp: "OPPOSITE_DIRECTION d =
      (case d of north \<Rightarrow> south | south \<Rightarrow> north | east \<Rightarrow> west | west \<Rightarrow> east)" for d
    by (cases d) simp_all
  have "\<exists>room'. map_get (room_map g5) n = Some room' \<and> rp_id room' = n \<and>
           map_get (connections room')
             (case d of north \<Rightarrow> south | south \<Rightarrow> north | east \<Rightarrow> west | west \<Rightarrow> east) =
             Some (Some (rp_id room))"
    if "(k, room) \<in> set (room_map g5)" "map_get (connections room) d = Some (Some n)" for k room d n
  proof -
    from that(1) obtain a where a: "(k, a) \<in> set (rooms g5)" "room = heap g5 ! a"
      by (auto simp: in_room_map)
    from bi a that(2) obtain b where b: "map_of (rooms g5) n = Some b"
      "map_of (connections (heap g5 ! b)) (OPPOSITE_DIRECTION d) = Some (Some k)"
      unfolding inv_bidir_def map_get_def by blast
    have "rp_id room = k" using inv_ids_key [OF ids a(1)] a(2) by simp
    moreover have "rp_id (heap g5 ! b) = n"
      using inv_ids_key [OF ids map_of_SomeD [OF b(1)]] .
    ultimately show ?thesis using b
      by (simp add: map_get_def map_of_room_map opp)
  qed
  moreover have "generate g = Some (Inr g5)"
    using t by (simp add: generate_def)
  ultimately show ?thesis by blast
qed

theorem bidirectional_connections_witness:
  "\<exists>g' room. generate demo_generator = Some (Inr g') \<and>
     (''room_0'', room) \<in> set (room_map g') \<and>
     map_get (connections room) east = Some (Some ''room_1'') \<and>
     (\<exists>room'. map_get (room_map g') ''room_1'' = Some room' \<and> rp_id room' = ''room_1'' \<and>
        map_get (connections room') west = Some (Some (rp_id room)))"
proof -
  from bidirectional_connections [of demo_generator] obtain g' where
    t: "generate demo_generator = Some (Inr g')"
    and b: "\<And>k room d n.
        (k, room) \<in> set (room_map g') \<Longrightarrow> map_get (connections room) d = Some (Some n) \<Longrightarrow>
        (\<exists>room'. map_get (room_map g') n = Some room' \<and> rp_id room' = n \<and>
           map_get (connections room')
             (case d of north \<Rightarrow> south | south \<Rightarrow> north | east \<Rightarrow> west | west \<Rightarrow> east) =
             Some (Some (rp_id room)))"
    by blast
  define room where "room = snd (hd (room_map g'))"
  have r: "(''room_0'', room) \<in> set (room_map g')"
    "map_get (connections room) east = Some (Some ''room_1'')"
    by (simp_all add: room_def eval_demo_final [OF t] map_get_def)
  from b [OF r] have "\<exists>room'. map_get (room_map g') ''room_1'' = Some room' \<and>
        rp_id room' = ''room_1'' \<and> map_get (connections room') west = Some (Some (rp_id room))"
    by simp
  with t r show ?thesis by blast
qed

text \<open>
  C6 (room-count bound). \<open>generate\<close> returns; the room map it returns holds at least one
  room, and its first entry is \<open>room_0\<close>, the junction at the origin. When the drawn target
  is at least 1, the map holds at most \<open>target\<close> rooms, and exactly \<open>target\<close> rooms unless
  the frontier was empty when the growth loop ended.
\<close>

theorem room_count_bound:
  "\<exists>target g4 fr g5. generate_trace g = Some (Inr (Generated target g4 fr g5)) \<and>
     1 \<le> length (room_map g5) \<and>
     (\<exists>room. hd (room_map g5) = (''room_0'', room) \<and> rp_type room = junction \<and>
        gridX room = 0 \<and> gridZ room = 0) \<and>
     (1 \<le> target \<longrightarrow>
        int (length (room_map g5)) \<le> target \<and>
        (int (length (room_map g5)) = target \<or> fr = []))"
proof -
  from generate_trace_final [of g] obtain target g4 fr g5 where
    t: "generate_trace g = Some (Inr (Generated target g4 fr g5))"
    and g5: "g5 = addSpecialRooms g4" and pr: "pass_rel g4 g5" and inv: "gen_inv g4"
    and e: "\<not> (int (length (rooms g4)) < target \<and> fr \<noteq> [])"
      "1 \<le> length (rooms g4)" "int (length (rooms g4)) \<le> max target 1"
      "rooms g5 = rooms g4"
    by blast
  from e have bound: "1 \<le> length (room_map g5) \<and>
     (1 \<le> target \<longrightarrow>
        int (length (room_map g5)) \<le> target \<and>
        (int (length (room_map g5)) = target \<or> fr = []))"
    by auto
  from inv obtain a0 rest where r: "rooms g4 = (room_name 0, a0) # rest"
    "rp_type (heap g4 ! a0) = junction" "gridX (heap g4 ! a0) = 0" "gridZ (heap g4 ! a0) = 0"
    unfolding gen_inv_def inv_spawn_def by blast
  have ids: "inv_ids g4" using inv by (simp add: gen_inv_def)
  have ka: "(room_name 0, a0) \<in> set (rooms g4)" by (simp add: r(1))
  then have "a0 \<in> set (refs g4)" by (force simp: refs_def)
  then have lt: "a0 < length (heap g4)" by (rule inv_ids_ref_lt [OF ids])
  have fr: "same_frame (heap g4 ! a0) (heap g5 ! a0)" by (rule pass_rel_frame [OF pr lt])
  have ty: "rp_type (heap g5 ! a0) = junction"
    using pass_special_rooms [OF inv ka] r(2) unfolding g5 [symmetric] by (cases "group_variant (heap g5 ! a0)") auto
  have "hd (room_map g5) = (''room_0'', heap g5 ! a0)"
    by (simp add: room_map_def e(4) r(1) room_name_def show_nat_0)
  with ty fr r(3,4) have "\<exists>room. hd (room_map g5) = (''room_0'', room) \<and> rp_type room = junction \<and>
        gridX room = 0 \<and> gridZ room = 0"
    by (simp add: same_frame_def)
  with t bound show ?thesis by blast
qed

theorem room_count_bound_witness:
  "\<exists>g4 fr g5. generate_trace demo_generator = Some (Inr (Generated 2 g4 fr g5)) \<and>
     1 \<le> length (room_map g5) \<and> (1::int) \<le> 2 \<and>
     int (length (room_map g5)) \<le> 2 \<and> int (length (room_map g5)) = 2 \<and> fr = [0, 1]"
proof -
  from room_count_bound [of demo_generator] obtain target g4 fr g5 where
    t: "generate_trace demo_generator = Some (Inr (Generated target g4 fr g5))"
    and b: "1 \<le> length (room_map g5)"
      "1 \<le> target \<longrightarrow> int (length (room_map g5)) \<le> target \<and>
        (int (length (room_map g5)) = target \<or> fr = [])"
    by blast
  from eval_demo_trace [OF t] have v: "target = 2" "fr = [0, 1]"
    by (simp_all add: trace_view_Generated)
  with b t show ?thesis by auto
qed

text \<open>
  C5, as amended (target-count bounds). For a configuration with \<open>minRooms < maxRooms\<close>,
  \<open>generate\<close> returns and the target room count it draws once at its start satisfies
  \<open>minRooms \<le> target \<le> maxRooms\<close>: \<open>maxRooms\<close> is an inclusive bound, as \<open>minRooms\<close> is.
\<close>

theorem target_bound_inclusive:
  assumes "minRooms (config g) < maxRooms (config g)"
  shows "\<exists>target g4 fr g5. generate_trace g = Some (Inr (Generated target g4 fr g5)) \<and>
           minRooms (config g) \<le> target \<and> target \<le> maxRooms (config g)"
proof -
  from generate_trace_final [of g] obtain target g4 fr g5 where
    t: "generate_trace g = Some (Inr (Generated target g4 fr g5))" "target = drawn_target g"
    by blast
  have "minRooms (config g) < maxRooms (config g) + 1" using assms by simp
  from nextInt_range [OF this, of "rng g"]
  have "minRooms (config g) \<le> target \<and> target \<le> maxRooms (config g)"
    by (simp add: t(2) drawn_target_def)
  with t(1) show ?thesis by blast
qed

theorem target_bound_inclusive_witness:
  "minRooms (config demo_generator) < maxRooms (config demo_generator) \<and>
   (\<exists>g4 fr g5. generate_trace demo_generator = Some (Inr (Generated 2 g4 fr g5)) \<and>
      minRooms (config demo_generator) \<le> 2 \<and> 2 \<le> maxRooms (config demo_generator))"
proof -
  have h: "minRooms (config demo_generator) < maxRooms (config demo_generator)"
    by (simp add: demo_generator_def demo_config_def DungeonGenerator_new_def)
  from target_bound_inclusive [OF h] obtain target g4 fr g5 where
    t: "generate_trace demo_generator = Some (Inr (Generated target g4 fr g5))"
    and b: "minRooms (config demo_generator) \<le> target" "target \<le> maxRooms (config demo_generator)"
    by blast
  from eval_demo_trace [OF t] have "target = 2"
    by (simp add: trace_view_Generated)
  with h t b show ?thesis by blast
qed

text \<open>
  The claim as stated, \<open>target < maxRooms\<close>, fails: with seed 1, \<open>minRooms = 1\<close> and
  \<open>maxRooms = 2\<close> the target drawn is 2.
\<close>

theorem target_bound_counterexample:
  "minRooms (config demo_generator) = 1 \<and> maxRooms (config demo_generator) = 2 \<and>
   map_option (map_sum id targetRoomCount) (generate_trace demo_generator) = Some (Inr 2)"
proof -
  from eval_demo obtain t where t: "generate_trace demo_generator = Some (Inr t)"
    by (cases "generate_trace demo_generator"; cases "the (generate_trace demo_generator)") auto
  from eval_demo_trace [OF t] have "targetRoomCount t = 2"
    by (cases t) (simp_all add: trace_view_def)
  with t show ?thesis
    by (simp add: demo_generator_def demo_config_def DungeonGenerator_new_def)
qed

text \<open>
  C4 (special-room caps). \<open>generate\<close> returns; in the map it returns at most 2 rooms have a
  treasure dead-end group and at most 1 a shrine dead-end group, and the two counters
  hold exactly these numbers; before the special-room pass no room had a dead-end group
  or the type \<open>dead_end\<close>; and every room that has one after the pass is of type
  \<open>dead_end\<close> and had, before the pass, exactly one connection that is not null and a
  type other than junction. The pass touches a room only in its own iteration, and one
  iteration changes the store only when the room it visits is such a dead end.
\<close>

theorem special_room_caps:
  "(\<exists>target g4 fr g5. generate_trace g = Some (Inr (Generated target g4 fr g5)) \<and>
      length (filter (\<lambda>(k, room). group_variant room = Some treasure) (room_map g5)) \<le> 2 \<and>
      length (filter (\<lambda>(k, room). group_variant room = Some shrine) (room_map g5)) \<le> 1 \<and>
      treasureRoomCount g5 =
        length (filter (\<lambda>(k, room). group_variant room = Some treasure) (room_map g5)) \<and>
      shrineRoomCount g5 =
        length (filter (\<lambda>(k, room). group_variant room = Some shrine) (room_map g5)) \<and>
      list_all (\<lambda>(k, room). group_variant room = None \<and> rp_type room \<noteq> dead_end) (room_map g4) \<and>
      list_all2
        (\<lambda>(k, before) (k', after). k' = k \<and>
           (group_variant after \<noteq> None \<longrightarrow>
              (group_variant after = Some treasure \<or> group_variant after = Some shrine) \<and>
              rp_type after = dead_end \<and>
              connectionCount before = 1 \<and> rp_type before \<noteq> junction))
        (room_map g4) (room_map g5)) \<and>
   (\<forall>a g'. heap (special_step a g') \<noteq> heap g' \<longrightarrow>
      connectionCount (heap g' ! a) = 1 \<and> rp_type (heap g' ! a) \<noteq> junction)"
proof -
  from generate_trace_final [of g] obtain target g4 fr g5 where
    t: "generate_trace g = Some (Inr (Generated target g4 fr g5))"
    and g5: "g5 = addSpecialRooms g4" and pr: "pass_rel g4 g5"
    and inv: "gen_inv g4"
    and c0: "treasureRoomCount g4 = 0" "shrineRoomCount g4 = 0"
    and rooms: "rooms g5 = rooms g4"
    by blast
  have ids: "inv_ids g4" and pl: "inv_plain g4" using inv by (simp_all add: gen_inv_def)
  have d: "distinct (map snd (rooms g4))" using ids by (simp add: inv_ids_def)
  have pre: "\<forall>a \<in> snd ` set (rooms g4). a < length (heap g4) \<and> group_variant (heap g4 ! a) = None"
    using pl inv_ids_ref_lt [OF ids] by (auto simp: inv_plain_def refs_def)
  note cnt = special_loop_counts [OF d pre, folded addSpecialRooms_def, folded g5]
  have vc: "variant_count v g5 (rooms g4) =
      length (filter (\<lambda>(k, room). group_variant room = Some v) (room_map g5))" for v
    by (simp add: variant_count_def room_map_def rooms filter_map comp_def case_prod_unfold)
  have plain: "list_all (\<lambda>(k, room). group_variant room = None \<and> rp_type room \<noteq> dead_end) (room_map g4)"
    using pl by (fastforce simp: list_all_iff in_room_map inv_plain_def refs_def)
  have one: "(group_variant (heap g5 ! a) = Some treasure \<or>
         group_variant (heap g5 ! a) = Some shrine) \<and>
        rp_type (heap g5 ! a) = dead_end \<and>
        connectionCount (heap g4 ! a) = 1 \<and> rp_type (heap g4 ! a) \<noteq> junction"
    if ka: "(k, a) \<in> set (rooms g4)" and v: "group_variant (heap g5 ! a) \<noteq> None" for k a
  proof -
    from ka have a: "a \<in> snd ` set (rooms g4)" by force
    from cnt a v have 1: "is_dead_end_room (heap g4 ! a)"
      "group_variant (heap g5 ! a) = Some treasure \<or> group_variant (heap g5 ! a) = Some shrine"
      by blast+
    have lt: "a < length (heap g4)" using pre a by blast
    have "room_rel (materials g4) (heap g4 ! a) (heap g5 ! a)"
      using pr lt by (simp add: pass_rel_def)
    moreover have "group (heap g5 ! a) \<noteq> group (heap g4 ! a)"
      using v pre a by (auto simp: group_variant_def)
    ultimately have "rp_type (heap g5 ! a) = dead_end"
      by (auto simp: room_rel_def)
    with 1 show ?thesis
      by (simp add: is_dead_end_room_def)
  qed
  have rel: "list_all2
        (\<lambda>(k, before) (k', after). k' = k \<and>
           (group_variant after \<noteq> None \<longrightarrow>
              (group_variant after = Some treasure \<or> group_variant after = Some shrine) \<and>
              rp_type after = dead_end \<and>
              connectionCount before = 1 \<and> rp_type before \<noteq> junction))
        (room_map g4) (room_map g5)"
    unfolding list_all2_room_map [OF rooms] using one by fastforce
  have step: "connectionCount (heap g' ! a) = 1 \<and> rp_type (heap g' ! a) \<noteq> junction"
    if "heap (special_step a g') \<noteq> heap g'" for a g'
    using special_step_cases [of a g'] that by (auto simp: is_dead_end_room_def)
  have caps: "treasureRoomCount g5 \<le> 2" "shrineRoomCount g5 \<le> 1"
    using cnt c0 by simp_all
  have eqs: "treasureRoomCount g5 =
        length (filter (\<lambda>(k, room). group_variant room = Some treasure) (room_map g5))"
      "shrineRoomCount g5 =
        length (filter (\<lambda>(k, room). group_variant room = Some shrine) (room_map g5))"
    using cnt c0 by (simp_all add: vc)
  show ?thesis
    using t caps eqs plain rel step by (intro conjI exI [of _ target] exI [of _ g4] exI [of _ fr] exI [of _ g5]) auto
qed

theorem special_room_caps_witness:
  "\<exists>target g4 fr g5. generate_trace demo_generator = Some (Inr (Generated target g4 fr g5)) \<and>
      map (\<lambda>(k, room). (k, connectionCount room, rp_type room)) (room_map g4) =
        [(''room_0'', 1, junction), (''room_1'', 1, basic)] \<and>
      map (\<lambda>(k, room). (k, group_variant room, rp_type room)) (room_map g5) =
        [(''room_0'', None, junction), (''room_1'', Some treasure, dead_end)] \<and>
      treasureRoomCount g5 = 1 \<and> shrineRoomCount g5 = 0 \<and>
      list_all2
        (\<lambda>(k, before) (k', after). k' = k \<and>
           (group_variant after \<noteq> None \<longrightarrow>
              (group_variant after = Some treasure \<or> group_variant after = Some shrine) \<and>
              rp_type after = dead_end \<and>
              connectionCount before = 1 \<and> rp_type before \<noteq> junction))
        (room_map g4) (room_map g5)"
proof -
  from special_room_caps [of demo_generator] obtain target g4 fr g5 where
    t: "generate_trace demo_generator = Some (Inr (Generated target g4 fr g5))"
    and r: "list_all2
        (\<lambda>(k, before) (k', after). k' = k \<and>
           (group_variant after \<noteq> None \<longrightarrow>
              (group_variant after = Some treasure \<or> group_variant after = Some shrine) \<and>
              rp_type after = dead_end \<and>
              connectionCount before = 1 \<and> rp_type before \<noteq> junction))
        (room_map g4) (room_map g5)"
    by blast
  note v = eval_demo_trace [OF t, unfolded trace_view_Generated]
  have 1: "map (\<lambda>(k, room). (k, connectionCount room, rp_type room)) (room_map g4) =
        [(''room_0'', 1, junction), (''room_1'', 1, basic)]"
    using v by (simp add: connectionCount_def)
  have 2: "map (\<lambda>(k, room). (k, group_variant room, rp_type room)) (room_map g5) =
        [(''room_0'', None, junction), (''room_1'', Some treasure, dead_end)]"
    using v by (simp add: group_variant_def)
  have 3: "treasureRoomCount g5 = 1" "shrineRoomCount g5 = 0"
    using v by simp_all
  show ?thesis
    by (intro conjI exI [of _ target] exI [of _ g4] exI [of _ fr] exI [of _ g5]) (fact t r 1 2 3)+
qed

text \<open>
  C10 (frame of the special-room pass). When every reference of the room map is in the
  store, \<open>addSpecialRooms\<close> keeps the entries of the room map, in their order and under
  their keys; for every room it keeps the id, the grid and world coordinates and the
  connection map; and it keeps the type and the group too, unless the room is now of
  type \<open>dead_end\<close> with the treasure or the shrine group built for it.
\<close>

theorem addSpecialRooms_frame:
  assumes "\<forall>(k, a) \<in> set (rooms g). a < length (heap g)"
  shows "list_all2
     (\<lambda>(k, room) (k', room'). k' = k \<and>
        rp_id room' = rp_id room \<and> gridX room' = gridX room \<and> gridZ room' = gridZ room \<and>
        worldX room' = worldX room \<and> worldZ room' = worldZ room \<and>
        connections room' = connections room \<and>
        (rp_type room' = rp_type room \<and> group room' = group room \<or>
         rp_type room' = dead_end \<and>
         (group room' = Some (createRoomGroup (materials g) room' (Some treasure)) \<or>
          group room' = Some (createRoomGroup (materials g) room' (Some shrine)))))
     (room_map g) (room_map (addSpecialRooms g))"
proof -
  have p: "pass_rel g (addSpecialRooms g)" by (rule pass_rel_addSpecialRooms)
  then have r: "rooms (addSpecialRooms g) = rooms g" by (simp add: pass_rel_def)
  have "room_rel (materials g) (heap g ! a) (heap (addSpecialRooms g) ! a)"
    if "(k, a) \<in> set (rooms g)" for k a
    using p assms that by (auto simp: pass_rel_def)
  then show ?thesis
    unfolding list_all2_room_map [OF r]
    by (auto simp: room_rel_def same_frame_def)
qed

theorem addSpecialRooms_frame_witness:
  "list_all (\<lambda>(k, a). a < length (heap two_rooms)) (rooms two_rooms) \<and>
   map (\<lambda>(k, room). (k, rp_type room)) (room_map two_rooms) =
     [(''room_0'', junction), (''room_1'', basic)] \<and>
   map (\<lambda>(k, room). (k, rp_type room)) (room_map (addSpecialRooms two_rooms)) =
     [(''room_0'', junction), (''room_1'', dead_end)] \<and>
   list_all2
     (\<lambda>(k, room) (k', room'). k' = k \<and>
        rp_id room' = rp_id room \<and> gridX room' = gridX room \<and> gridZ room' = gridZ room \<and>
        worldX room' = worldX room \<and> worldZ room' = worldZ room \<and>
        connections room' = connections room \<and>
        (rp_type room' = rp_type room \<and> group room' = group room \<or>
         rp_type room' = dead_end \<and>
         (group room' = Some (createRoomGroup (materials two_rooms) room' (Some treasure)) \<or>
          group room' = Some (createRoomGroup (materials two_rooms) room' (Some shrine)))))
     (room_map two_rooms) (room_map (addSpecialRooms two_rooms))"
proof -
  have h: "\<forall>(k, a) \<in> set (rooms two_rooms). a < length (heap two_rooms)"
    by (simp add: two_rooms_def)
  have 1: "map (\<lambda>(k, room). (k, rp_type room)) (room_map two_rooms) =
     [(''room_0'', junction), (''room_1'', basic)]"
    by (simp add: two_rooms_def room_map_def)
  have 2: "map (\<lambda>(k, room). (k, rp_type room)) (room_map (addSpecialRooms two_rooms)) =
     [(''room_0'', junction), (''room_1'', dead_end)]"
    by (simp add: two_rooms_def eval_defs Let_def)
  have h': "list_all (\<lambda>(k, a). a < length (heap two_rooms)) (rooms two_rooms)"
    using h by (simp add: list_all_iff)
  show ?thesis
    by (intro conjI) (fact h' 1 2 addSpecialRooms_frame [OF h])+
qed

lemma erase_fields [simp]:
  "rooms (erase g) = rooms g" "rng (erase g) = rng g" "grid (erase g) = grid g"
  "config (erase g) = config g" "roomIdCounter (erase g) = roomIdCounter g"
  "treasureRoomCount (erase g) = treasureRoomCount g" "shrineRoomCount (erase g) = shrineRoomCount g"
  "length (heap (erase g)) = length (heap g)"
  by (simp_all add: erase_def)

lemma erase_room_fields [simp]:
  "rp_id (erase_room r) = rp_id r" "rp_type (erase_room r) = rp_type r"
  "gridX (erase_room r) = gridX r" "gridZ (erase_room r) = gridZ r"
  "worldX (erase_room r) = worldX r" "worldZ (erase_room r) = worldZ r"
  "connections (erase_room r) = connections r"
  by (simp_all add: erase_room_def)

lemma heap_erase: "a < length (heap g) \<Longrightarrow> heap (erase g) ! a = erase_room (heap g ! a)"
  by (simp add: erase_def)

lemma erase_eqD:
  assumes "erase g = erase g'"
  shows "rooms g = rooms g'" "rng g = rng g'" "grid g = grid g'" "config g = config g'"
    "roomIdCounter g = roomIdCounter g'" "treasureRoomCount g = treasureRoomCount g'"
    "shrineRoomCount g = shrineRoomCount g'" "length (heap g) = length (heap g')"
    "map erase_room (heap g) = map erase_room (heap g')"
proof -
  show "rooms g = rooms g'" using arg_cong [OF assms, of rooms] by simp
  show "rng g = rng g'" using arg_cong [OF assms, of rng] by simp
  show "grid g = grid g'" using arg_cong [OF assms, of grid] by simp
  show "config g = config g'" using arg_cong [OF assms, of config] by simp
  show "roomIdCounter g = roomIdCounter g'" using arg_cong [OF assms, of roomIdCounter] by simp
  show "treasureRoomCount g = treasureRoomCount g'" using arg_cong [OF assms, of treasureRoomCount] by simp
  show "shrineRoomCount g = shrineRoomCount g'" using arg_cong [OF assms, of shrineRoomCount] by simp
  show "map erase_room (heap g) = map erase_room (heap g')"
    using arg_cong [OF assms, of heap] by (simp add: erase_def)
  then show "length (heap g) = length (heap g')" by (metis length_map)
qed

lemma erase_eq_room:
  assumes "erase g = erase g'" "a < length (heap g)"
  shows "erase_room (heap g ! a) = erase_room (heap g' ! a)"
proof -
  have "map erase_room (heap g) ! a = map erase_room (heap g') ! a"
    using erase_eqD(9) [OF assms(1)] by simp
  with assms(2) erase_eqD(8) [OF assms(1)] show ?thesis by simp
qed

lemma erase_eq_fields:
  assumes "erase g = erase g'" "a < length (heap g)"
  shows "rp_id (heap g ! a) = rp_id (heap g' ! a)" "rp_type (heap g ! a) = rp_type (heap g' ! a)"
    "gridX (heap g ! a) = gridX (heap g' ! a)" "gridZ (heap g ! a) = gridZ (heap g' ! a)"
    "connections (heap g ! a) = connections (heap g' ! a)"
proof -
  note e = erase_eq_room [OF assms]
  show "rp_id (heap g ! a) = rp_id (heap g' ! a)" using arg_cong [OF e, of rp_id] by simp
  show "rp_type (heap g ! a) = rp_type (heap g' ! a)" using arg_cong [OF e, of rp_type] by simp
  show "gridX (heap g ! a) = gridX (heap g' ! a)" using arg_cong [OF e, of gridX] by simp
  show "gridZ (heap g ! a) = gridZ (heap g' ! a)" using arg_cong [OF e, of gridZ] by simp
  show "connections (heap g ! a) = connections (heap g' ! a)" using arg_cong [OF e, of connections] by simp
qed

lemma erase_eqI:
  assumes "rooms g = rooms g'" "rng g = rng g'" "grid g = grid g'" "config g = config g'"
    "roomIdCounter g = roomIdCounter g'" "treasureRoomCount g = treasureRoomCount g'"
    "shrineRoomCount g = shrineRoomCount g'"
    "map erase_room (heap g) = map erase_room (heap g')"
  shows "erase g = erase g'"
  by (rule DungeonGenerator.equality) (simp_all add: erase_def assms)

lemma isOccupied_erase_eq: "erase g = erase g' \<Longrightarrow> isOccupied g x z = isOccupied g' x z"
  using erase_eqD(3) [of g g'] by (simp add: isOccupied_def)

lemma available_erase_eq:
  assumes "erase g = erase g'" "a < length (heap g)"
  shows "getAvailableDirections g a = getAvailableDirections g' a"
  unfolding getAvailableDirections_def
  using erase_eq_fields [OF assms] isOccupied_erase_eq [OF assms(1)] by simp

lemma chosen_direction_erase_eq:
  assumes "erase g = erase g'" "a < length (heap g)"
  shows "chosen_direction g a = chosen_direction g' a"
  by (simp add: chosen_direction_def available_erase_eq [OF assms] erase_eqD(2) [OF assms(1)])

lemma chosen_type_alt:
  "chosen_type g =
     choose_value (length (rooms g)) (branchingFactor (config g)) (snd (rng_next (rng g)))"
proof -
  define r0 where "r0 = snd (rng_next (rng g))"
  define bf where "bf = branchingFactor (config g)"
  obtain c1 r1 where c1: "chance (1 / 2) r0 = (c1, r1)" by (cases "chance (1 / 2) r0")
  obtain c2 r2 where c2: "chance bf r0 = (c2, r2)" by (cases "chance bf r0")
  obtain opt r3 where p: "pick [basic, corridor_ns, corridor_ew] r2 = (opt, r3)"
    by (cases "pick [basic, corridor_ns, corridor_ew] r2")
  show ?thesis
  proof (cases "length (rooms g) < 3")
    case True
    then show ?thesis
      using c1 by (simp add: chosen_type_def chooseRoomType_def choose_value_def r0_def [symmetric])
  next
    case False
    show ?thesis
    proof (cases c2)
      case True
      with False c2 show ?thesis
        by (simp add: chosen_type_def chooseRoomType_def choose_value_def r0_def [symmetric] bf_def [symmetric])
    next
      case nc: False
      with False c2 p show ?thesis
        by (cases opt)
           (simp_all add: chosen_type_def chooseRoomType_def choose_value_def r0_def [symmetric] bf_def [symmetric])
    qed
  qed
qed

lemma chosen_type_erase_eq:
  assumes "erase g = erase g'"
  shows "chosen_type g = chosen_type g'"
  by (simp only: chosen_type_alt erase_eqD(1,2,4) [OF assms])

lemma erase_rng:
  assumes "erase g = erase g'"
  shows "erase (g\<lparr>rng := r\<rparr>) = erase (g'\<lparr>rng := r\<rparr>)"
  by (rule erase_eqI) (simp_all add: erase_eqD [OF assms])

lemma erase_room_connections:
  "erase_room (room\<lparr>connections := c\<rparr>) = (erase_room room)\<lparr>connections := c\<rparr>"
  by (simp add: erase_room_def)

lemma heap_erase_grow:
  "map erase_room (heap (grow g a dir t r)) =
     (map erase_room (heap g))
       [a := (erase_room (heap g ! a))
          \<lparr>connections := connections (heap g ! a) @ [(dir, Some (room_name (roomIdCounter g)))]\<rparr>]
     @ [erase_room (new_room_of g a dir t)]"
  by (simp add: grow_def Let_def map_update erase_room_connections new_room_of_def)
     (simp add: erase_room_def)

lemma erase_grow_eq:
  assumes "erase g = erase g'" "a < length (heap g)"
  shows "erase (grow g a dir t r) = erase (grow g' a dir t r)"
proof -
  note f = erase_eq_fields [OF assms] and d = erase_eqD [OF assms(1)]
  have nr: "new_room_of g a dir t = new_room_of g' a dir t"
    by (simp add: new_room_of_def f d)
  have h: "map erase_room (heap (grow g a dir t r)) = map erase_room (heap (grow g' a dir t r))"
    unfolding heap_erase_grow nr d(5) d(9) f(5) erase_eq_room [OF assms] ..
  show ?thesis
  proof (rule erase_eqI)
    show "map erase_room (heap (grow g a dir t r)) = map erase_room (heap (grow g' a dir t r))"
      by (rule h)
  qed (simp_all add: grow_def Let_def nr d)
qed

lemma refs_erase_eq: "erase g = erase g' \<Longrightarrow> refs g = refs g'"
  using erase_eqD(1) [of g g'] by (simp add: refs_def)

lemma growth_loop_erase_eq:
  assumes "gen_inv g" "gen_inv g'" "set fr \<subseteq> set (refs g)" "erase g = erase g'"
  shows "\<exists>h h' fr'. growth_loop target g fr = Some (Inr (h, fr')) \<and>
           growth_loop target g' fr = Some (Inr (h', fr')) \<and>
           erase h = erase h' \<and> inv_ids h"
  using assms
proof (induction "2 * nat (target - int (length (rooms g))) + length fr" arbitrary: g g' fr rule: less_induct)
  case less
  note e = less.prems(4)
  note d = erase_eqD [OF e]
  show ?case
  proof (cases "int (length (rooms g)) < target \<and> fr \<noteq> []")
    case False
    then have "\<not> (int (length (rooms g')) < target \<and> fr \<noteq> [])" by (simp add: d(1))
    with False less.prems show ?thesis
      by (auto simp: growth_loop_stop gen_inv_def)
  next
    case True
    then have lt: "int (length (rooms g)) < target" and ne: "fr \<noteq> []"
      and lt': "int (length (rooms g')) < target"
      by (simp_all add: d(1))
    obtain cur where cur: "cur \<in> set fr" "pick fr (rng g) = (Some cur, snd (rng_next (rng g)))"
      using pick_cases [OF ne] by blast
    have cur': "pick fr (rng g') = (Some cur, snd (rng_next (rng g)))"
      using cur(2) by (simp add: d(2))
    define g1 where "g1 = g\<lparr>rng := snd (rng_next (rng g))\<rparr>"
    define g1' where "g1' = g'\<lparr>rng := snd (rng_next (rng g))\<rparr>"
    have e1: "erase g1 = erase g1'" unfolding g1_def g1'_def by (rule erase_rng [OF e])
    have inv1: "gen_inv g1" "gen_inv g1'" using less.prems(1,2) by (simp_all add: g1_def g1'_def)
    have ids1: "inv_ids g1" "inv_ids g1'" using inv1 by (simp_all add: gen_inv_def)
    have cur_ref: "cur \<in> set (refs g1)" using cur(1) less.prems(3) by (auto simp: g1_def refs_def)
    have cur_ref': "cur \<in> set (refs g1')" using cur_ref refs_erase_eq [OF e1] by simp
    have clt: "cur < length (heap g1)" using inv_ids_ref_lt [OF ids1(1) cur_ref] .
    have clt': "cur < length (heap g1')" using inv_ids_ref_lt [OF ids1(2) cur_ref'] .
    have rooms1: "rooms g1 = rooms g" by (simp add: g1_def)
    have av: "getAvailableDirections g1 cur = getAvailableDirections g1' cur"
      by (rule available_erase_eq [OF e1 clt])
    show ?thesis
    proof (cases "getAvailableDirections g1 cur = []")
      case True
      have ex: "expandFrom g1 cur = Inr (None, g1)" "expandFrom g1' cur = Inr (None, g1')"
        using True av by (simp_all add: expandFrom_empty)
      have eq: "growth_loop target g fr = growth_loop target g1 (remove1 cur fr)"
        using growth_loop_shrink [OF lt ne cur(2)] ex(1) by (simp add: g1_def)
      have eq': "growth_loop target g' fr = growth_loop target g1' (remove1 cur fr)"
        using growth_loop_shrink [OF lt' ne cur'] ex(2) by (simp add: g1'_def)
      have len: "length (remove1 cur fr) < length fr"
        using cur(1) ne by (simp add: length_remove1)
      have sub: "set (remove1 cur fr) \<subseteq> set (refs g1)"
        using less.prems(3) set_remove1_subset [of cur fr] by (auto simp: g1_def refs_def)
      have "2 * nat (target - int (length (rooms g1))) + length (remove1 cur fr)
            < 2 * nat (target - int (length (rooms g))) + length fr"
        using len rooms1 by simp
      from less.hyps [OF this inv1 sub e1] eq eq' show ?thesis by simp
    next
      case False
      then have False': "getAvailableDirections g1' cur \<noteq> []" using av by simp
      obtain dir t r where ex: "chosen_direction g1 cur = Some dir" "chosen_type g1 = Some (t, r)"
        "dir \<in> set (getAvailableDirections g1 cur)" "t \<noteq> dead_end"
        "expandFrom g1 cur = Inr (Some (length (heap g1)), grow g1 cur dir t r)"
        using expandFrom_grow [OF ids1(1) clt False] by blast
      obtain dir' t' r' where ex': "chosen_direction g1' cur = Some dir'" "chosen_type g1' = Some (t', r')"
        "expandFrom g1' cur = Inr (Some (length (heap g1')), grow g1' cur dir' t' r')"
        using expandFrom_grow [OF ids1(2) clt' False'] by blast
      have same: "dir' = dir" "t' = t" "r' = r"
        using ex(1,2) ex'(1,2) chosen_direction_erase_eq [OF e1 clt] chosen_type_erase_eq [OF e1]
        by simp_all
      have len_eq: "length (heap g1') = length (heap g1)" using erase_eqD(8) [OF e1] by simp
      define g2 where "g2 = grow g1 cur dir t r"
      define g2' where "g2' = grow g1' cur dir t r"
      have eq: "growth_loop target g fr = growth_loop target g2 (fr @ [length (heap g1)])"
        using growth_loop_extend [OF lt ne cur(2)] ex(5) by (simp add: g1_def g2_def)
      have ex2: "expandFrom g1' cur = Inr (Some (length (heap g1)), g2')"
        using ex'(3) by (simp add: same len_eq g2'_def)
      have eq': "growth_loop target g' fr = growth_loop target g2' (fr @ [length (heap g1)])"
        by (rule growth_loop_extend [OF lt' ne cur' ex2 [unfolded g1'_def]])
      have inv2: "gen_inv g2" "gen_inv g2'"
        unfolding g2_def g2'_def
        using gen_inv_grow [OF inv1(1) cur_ref ex(3,4)] gen_inv_grow [OF inv1(2) cur_ref' _ ex(4)]
          ex(3) av by simp_all
      have e2: "erase g2 = erase g2'"
        unfolding g2_def g2'_def by (rule erase_grow_eq [OF e1 clt])
      have sub: "set (fr @ [length (heap g1)]) \<subseteq> set (refs g2)"
        using less.prems(3) by (auto simp: g2_def g1_def refs_def)
      have rooms2: "length (rooms g2) = Suc (length (rooms g))"
        by (simp add: g2_def rooms1)
      have "2 * nat (target - int (length (rooms g2))) + length (fr @ [length (heap g1)])
            < 2 * nat (target - int (length (rooms g))) + length fr"
        using lt rooms2 by simp
      from less.hyps [OF this inv2 sub e2] eq eq' show ?thesis by simp
    qed
  qed
qed

lemma special_step_alt:
  "special_step a g =
     (let r1 = snd (rng_next (rng g));
          c1 = fst (chance (treasureRoomChance (config g)) (rng g));
          r2 = snd (rng_next r1);
          c2 = fst (chance (shrineRoomChance (config g)) r1)
      in if is_dead_end_room (heap g ! a) then
           (if c1 \<and> treasureRoomCount g < 2
            then (reclassify g a treasure r1)\<lparr>treasureRoomCount := Suc (treasureRoomCount g)\<rparr>
            else if c2 \<and> shrineRoomCount g < 1
            then (reclassify g a shrine r2)\<lparr>shrineRoomCount := Suc (shrineRoomCount g)\<rparr>
            else g\<lparr>rng := r2\<rparr>)
         else g)"
proof (cases "is_dead_end_room (heap g ! a)")
  case False
  then show ?thesis
    by (auto simp: special_step_def is_dead_end_room_def Let_def)
next
  case True
  obtain c1 r1 where c1: "chance (treasureRoomChance (config g)) (rng g) = (c1, r1)"
    by (cases "chance (treasureRoomChance (config g)) (rng g)")
  obtain c2 r2 where c2: "chance (shrineRoomChance (config g)) r1 = (c2, r2)"
    by (cases "chance (shrineRoomChance (config g)) r1")
  have r1: "snd (rng_next (rng g)) = r1" using chance_rng [of "treasureRoomChance (config g)" "rng g"] c1 by simp
  have r2: "snd (rng_next r1) = r2" using chance_rng [of "shrineRoomChance (config g)" r1] c2 by simp
  consider (t) "c1 \<and> treasureRoomCount g < 2"
    | (s) "\<not> (c1 \<and> treasureRoomCount g < 2)" "c2 \<and> shrineRoomCount g < 1"
    | (n) "\<not> (c1 \<and> treasureRoomCount g < 2)" "\<not> (c2 \<and> shrineRoomCount g < 1)"
    by blast
  then show ?thesis
  proof cases
    case t
    have "special_step a g = (reclassify g a treasure r1)\<lparr>treasureRoomCount := Suc (treasureRoomCount g)\<rparr>"
      using True c1 t
      by (cases "a < length (heap g)")
         (simp_all add: special_step_def is_dead_end_room_def Let_def reclassify_def set_type_def
            set_group_def list_update_beyond)
    with True t c1 show ?thesis by (simp add: Let_def r1)
  next
    case s
    have "special_step a g = (reclassify g a shrine r2)\<lparr>shrineRoomCount := Suc (shrineRoomCount g)\<rparr>"
      using True c1 c2 s
      by (cases "a < length (heap g)")
         (auto simp add: special_step_def is_dead_end_room_def Let_def reclassify_def set_type_def
            set_group_def list_update_beyond)
    with True s c1 c2 show ?thesis by (auto simp add: Let_def r1 r2)
  next
    case n
    have "special_step a g = g\<lparr>rng := r2\<rparr>"
      using True c1 c2 n
      by (auto simp add: special_step_def is_dead_end_room_def Let_def)
    with True n c1 c2 show ?thesis by (auto simp add: Let_def r1 r2)
  qed
qed

lemma rng_reclassify [simp]: "rng (reclassify g a v r) = r"
  by (simp add: reclassify_def)

lemma erase_reclassify_eq:
  assumes "erase g = erase g'" "a < length (heap g)"
  shows "erase (reclassify g a v r) = erase (reclassify g' a v r)"
proof -
  have 1: "erase_room (room\<lparr>rp_type := ty, group := grp\<rparr>) = (erase_room room)\<lparr>rp_type := ty\<rparr>"
    for room ty grp
    by (simp add: erase_room_def)
  have h: "map erase_room (heap (reclassify g a v r)) =
      (map erase_room (heap g))[a := (erase_room (heap g ! a))\<lparr>rp_type := dead_end\<rparr>]" for g
    by (simp add: reclassify_def map_update 1)
  show ?thesis
    by (rule erase_eqI)
       (simp_all add: h erase_eqD [OF assms(1)] erase_eq_room [OF assms] rng_reclassify)
qed

lemma erase_counts:
  assumes "erase g = erase g'"
  shows "erase (g\<lparr>treasureRoomCount := n\<rparr>) = erase (g'\<lparr>treasureRoomCount := n\<rparr>)"
    and "erase (g\<lparr>shrineRoomCount := n\<rparr>) = erase (g'\<lparr>shrineRoomCount := n\<rparr>)"
  by (rule erase_eqI, simp_all add: erase_eqD [OF assms])+

lemma special_step_erase_eq:
  assumes "erase g = erase g'" "a < length (heap g)"
  shows "erase (special_step a g) = erase (special_step a g')"
proof -
  note d = erase_eqD [OF assms(1)] and f = erase_eq_fields [OF assms]
  have de: "is_dead_end_room (heap g ! a) = is_dead_end_room (heap g' ! a)"
    by (simp add: is_dead_end_room_def connectionCount_def f)
  have t: "erase ((reclassify g a v r)\<lparr>treasureRoomCount := n\<rparr>) =
           erase ((reclassify g' a v r)\<lparr>treasureRoomCount := n\<rparr>)" for v r n
    by (rule erase_counts(1) [OF erase_reclassify_eq [OF assms]])
  have s: "erase ((reclassify g a v r)\<lparr>shrineRoomCount := n\<rparr>) =
           erase ((reclassify g' a v r)\<lparr>shrineRoomCount := n\<rparr>)" for v r n
    by (rule erase_counts(2) [OF erase_reclassify_eq [OF assms]])
  show ?thesis
    unfolding special_step_alt Let_def d(2) d(4) d(6) d(7) de
    by (simp add: t s erase_rng [OF assms(1)] assms(1))
qed

lemma length_heap_special_step [simp]: "length (heap (special_step a g)) = length (heap g)"
  using pass_rel_special_step [of g a] by (simp add: pass_rel_def)

lemma special_loop_erase_eq:
  assumes "erase g = erase g'" "\<forall>(k, a) \<in> set xs. a < length (heap g)"
  shows "erase (special_loop xs g) = erase (special_loop xs g')"
  using assms
proof (induction xs arbitrary: g g')
  case Nil
  then show ?case by simp
next
  case (Cons x xs)
  obtain k a where x: "x = (k, a)" by (cases x)
  have a: "a < length (heap g)" using Cons.prems(2) by (simp add: x)
  have "erase (special_step a g) = erase (special_step a g')"
    by (rule special_step_erase_eq [OF Cons.prems(1) a])
  moreover have "\<forall>(k, a) \<in> set xs. a < length (heap (special_step a g))"
    using Cons.prems(2) by auto
  ultimately show ?case
    using Cons.IH [of "special_step a g" "special_step a g'"] by (simp add: x)
qed

lemma room_graph_erase_eq:
  assumes "erase g = erase g'" "\<forall>(k, a) \<in> set (rooms g). a < length (heap g)"
  shows "room_graph g = room_graph g'"
proof -
  have "(k, rp_id (heap g ! a), rp_type (heap g ! a), gridX (heap g ! a), gridZ (heap g ! a),
         connections (heap g ! a)) =
        (k, rp_id (heap g' ! a), rp_type (heap g' ! a), gridX (heap g' ! a), gridZ (heap g' ! a),
         connections (heap g' ! a))" if "(k, a) \<in> set (rooms g)" for k a
  proof -
    from that assms(2) have "a < length (heap g)" by auto
    from erase_eq_fields [OF assms(1) this] show ?thesis by simp
  qed
  then show ?thesis
    unfolding room_graph_def room_map_def erase_eqD(1) [OF assms(1), symmetric]
    by (auto simp: split_beta)
qed

lemma erase_seeded_eq:
  assumes "erase g = erase g'"
  shows "erase (seeded g) = erase (seeded g')"
proof -
  note d = erase_eqD [OF assms]
  have "erase_room (spawn_room m) = erase_room (spawn_room m')" for m m'
    by (simp add: spawn_room_def erase_room_def Let_def)
  then show ?thesis
    by (intro erase_eqI) (simp_all add: seeded_def d)
qed

lemma generate_erase_eq:
  assumes "erase g = erase g'"
  shows "\<exists>t t'. generate_trace g = Some (Inr t) \<and> generate_trace g' = Some (Inr t') \<and>
           room_graph (trace_final t) = room_graph (trace_final t')"
proof -
  note d = erase_eqD [OF assms]
  have tg: "drawn_target g' = drawn_target g"
    by (simp add: drawn_target_def d)
  have sub: "set [length (heap g)] \<subseteq> set (refs (seeded g))" by simp
  from growth_loop_erase_eq [OF gen_inv_seeded gen_inv_seeded sub erase_seeded_eq [OF assms],
      of "drawn_target g"]
  obtain h h' fr' where
    r: "growth_loop (drawn_target g) (seeded g) [length (heap g)] = Some (Inr (h, fr'))"
      "growth_loop (drawn_target g) (seeded g') [length (heap g)] = Some (Inr (h', fr'))"
      "erase h = erase h'" "inv_ids h"
    by blast
  have t: "generate_trace g = Some (Inr (Generated (drawn_target g) h fr' (addSpecialRooms h)))"
    by (simp add: generate_trace_unfold r(1))
  have t': "generate_trace g' = Some (Inr (Generated (drawn_target g) h' fr' (addSpecialRooms h')))"
    by (simp add: generate_trace_unfold tg d(8) [symmetric] r(2))
  have wf: "\<forall>(k, a) \<in> set (rooms h). a < length (heap h)"
    using r(4) by (auto simp: inv_ids_def)
  have e: "erase (addSpecialRooms h) = erase (addSpecialRooms h')"
    unfolding addSpecialRooms_def erase_eqD(1) [OF r(3), symmetric]
    by (rule special_loop_erase_eq [OF r(3) wf])
  have p: "pass_rel h (addSpecialRooms h)" by (rule pass_rel_addSpecialRooms)
  have wf': "\<forall>(k, a) \<in> set (rooms (addSpecialRooms h)). a < length (heap (addSpecialRooms h))"
    using wf p by (simp add: pass_rel_def)
  have "room_graph (addSpecialRooms h) = room_graph (addSpecialRooms h')"
    by (rule room_graph_erase_eq [OF e wf'])
  with t t' show ?thesis by simp
qed

text \<open>
  C1 (determinism). Two generators built from one configuration that gives a seed, with
  any materials and whatever \<open>Math.random\<close> returns in either constructor, both return
  from \<open>generate\<close>, and the two room maps hold the same keys in the same order, and
  under each key rooms with the same id, type, grid coordinates and connection map.
\<close>

theorem generation_deterministic:
  assumes "opt_seed cfg = Some s"
  shows "\<exists>g1 g2.
     generate (DungeonGenerator_new cfg mats random) = Some (Inr g1) \<and>
     generate (DungeonGenerator_new cfg mats' random') = Some (Inr g2) \<and>
     map (\<lambda>(k, room). (k, rp_id room, rp_type room, gridX room, gridZ room, connections room))
       (room_map g1) =
     map (\<lambda>(k, room). (k, rp_id room, rp_type room, gridX room, gridZ room, connections room))
       (room_map g2)"
proof -
  have "erase (DungeonGenerator_new cfg mats random) = erase (DungeonGenerator_new cfg mats' random')"
    using assms by (simp add: DungeonGenerator_new_def erase_def)
  from generate_erase_eq [OF this] show ?thesis
    by (auto simp: room_graph_def generate_def)
qed

theorem generation_deterministic_witness:
  "opt_seed demo_config = Some 1 \<and>
   (\<exists>g1 g2.
     generate (DungeonGenerator_new demo_config \<lparr>floor_material = 0, wall_material = 1\<rparr> 0) = Some (Inr g1) \<and>
     generate (DungeonGenerator_new demo_config \<lparr>floor_material = 5, wall_material = 7\<rparr> (1 / 2)) = Some (Inr g2) \<and>
     map (\<lambda>(k, room). (k, rp_id room, rp_type room, gridX room, gridZ room, connections room))
       (room_map g1) =
     map (\<lambda>(k, room). (k, rp_id room, rp_type room, gridX room, gridZ room, connections room))
       (room_map g2) \<and>
     map (\<lambda>(k, room). (k, rp_id room, rp_type room, gridX room, gridZ room, connections room))
       (room_map g2) =
     [(''room_0'', ''room_0'', junction, 0, 0, [(east, Some ''room_1'')]),
      (''room_1'', ''room_1'', dead_end, 1, 0, [(west, Some ''room_0'')])])"
proof -
  have h: "opt_seed demo_config = Some 1" by (simp add: demo_config_def)
  from generation_deterministic [OF h, of "\<lparr>floor_material = 0, wall_material = 1\<rparr>" 0
      "\<lparr>floor_material = 5, wall_material = 7\<rparr>" "1 / 2"]
  obtain g1 g2 where
    g: "generate (DungeonGenerator_new demo_config \<lparr>floor_material = 0, wall_material = 1\<rparr> 0) = Some (Inr g1)"
      "generate (DungeonGenerator_new demo_config \<lparr>floor_material = 5, wall_material = 7\<rparr> (1 / 2)) = Some (Inr g2)"
    and e: "map (\<lambda>(k, room). (k, rp_id room, rp_type room, gridX room, gridZ room, connections room))
       (room_map g1) =
     map (\<lambda>(k, room). (k, rp_id room, rp_type room, gridX room, gridZ room, connections room))
       (room_map g2)"
    by blast
  have "map (\<lambda>(k, room). (k, rp_id room, rp_type room, gridX room, gridZ room, connections room))
       (room_map g1) =
     [(''room_0'', ''room_0'', junction, 0, 0, [(east, Some ''room_1'')]),
      (''room_1'', ''room_1'', dead_end, 1, 0, [(west, Some ''room_0'')])]"
    using eval_demo_final [OF g(1) [folded demo_generator_def]] by simp
  with e have v: "map (\<lambda>(k, room). (k, rp_id room, rp_type room, gridX room, gridZ room, connections room))
       (room_map g2) =
     [(''room_0'', ''room_0'', junction, 0, 0, [(east, Some ''room_1'')]),
      (''room_1'', ''room_1'', dead_end, 1, 0, [(west, Some ''room_0'')])]"
    by simp
  show ?thesis
    by (intro conjI exI [of _ g1] exI [of _ g2]) (fact h g e v)+
qed

lemma scan_boxes_False:
  "scan_boxes boxes x z radius = Inr False \<longleftrightarrow> \<not> (\<exists>cb \<in> set boxes. in_expanded_box cb x z radius)"
  by (induction boxes) (auto simp: in_expanded_box_def split: option.splits)

lemma scan_boxes_returns:
  "list_all (\<lambda>cb. userData (mesh cb) \<noteq> None) boxes \<Longrightarrow>
   scan_boxes boxes x z radius = Inr (\<exists>cb \<in> set boxes. in_expanded_box cb x z radius)"
  by (induction boxes) (auto simp: in_expanded_box_def split: option.splits)

lemma scan_boxes_throws:
  "scan_boxes boxes x z radius = Inl TypeError \<longleftrightarrow>
     (\<exists>cb. find (\<lambda>cb. in_expanded_box cb x z radius) boxes = Some cb \<and> userData (mesh cb) = None)"
  by (induction boxes) (auto simp: in_expanded_box_def split: option.splits)

lemma index_traversed_snd:
  "snd (index_traversed sfo boxes objs) =
     boxes @ map (\<lambda>c. \<lparr>box = sfo c, mesh = c\<rparr>)
       (filter indexable (takeWhile (\<lambda>c. userData c \<noteq> None) objs))"
  by (induction objs arbitrary: boxes)
     (auto simp: index_child_def indexable_def split: option.splits)

lemma index_traversed_fst:
  "fst (index_traversed sfo boxes objs) = None \<longleftrightarrow> list_all (\<lambda>c. userData c \<noteq> None) objs"
  by (induction objs arbitrary: boxes)
     (auto simp: index_child_def split: option.splits)

lemma traverse_has_userData:
  "list_all (\<lambda>c. userData c \<noteq> None) (traverse obj) \<longleftrightarrow> has_userData obj"
proof (induction obj)
  case (Object3D n u p r g m cs)
  then show ?case by (simp add: list_all_iff)
qed

lemma takeWhile_has_userData:
  "has_userData obj \<Longrightarrow> takeWhile (\<lambda>c. userData c \<noteq> None) (traverse obj) = traverse obj"
  using traverse_has_userData [of obj] by (simp add: list_all_iff)

lemma self_in_traverse: "obj \<in> set (traverse obj)"
  by (cases obj) simp

lemma child_traverse: "c \<in> set (children obj) \<Longrightarrow> set (traverse c) \<subseteq> set (traverse obj)"
  by (cases obj) auto

lemma collisionBoxes_addRoom:
  "collisionBoxes (snd (addRoom sfo scene_add m grp)) =
     collisionBoxes m @ map (\<lambda>c. \<lparr>box = sfo c, mesh = c\<rparr>)
       (filter indexable (takeWhile (\<lambda>c. userData c \<noteq> None) (traverse grp)))"
proof (cases "userData grp")
  case None
  then have "takeWhile (\<lambda>c. userData c \<noteq> None) (traverse grp) = []"
    by (cases grp) simp
  with None show ?thesis by (simp add: addRoom_def)
next
  case (Some ud)
  then show ?thesis by (simp add: addRoom_def Let_def index_traversed_snd)
qed

lemma addRoom_returns: "fst (addRoom sfo scene_add m grp) = None \<longleftrightarrow> has_userData grp"
proof (cases "userData grp")
  case None
  then have "\<not> has_userData grp" by (cases grp) simp
  with None show ?thesis by (simp add: addRoom_def)
next
  case (Some ud)
  then show ?thesis
    by (simp add: addRoom_def Let_def index_traversed_fst traverse_has_userData del: not_None_eq)
qed

lemma indexable_userData: "indexable c \<Longrightarrow> userData c \<noteq> None"
  by (auto simp: indexable_def split: option.splits)

lemma indexed_with_userData_addRoom:
  "indexed_with_userData m \<Longrightarrow> indexed_with_userData (snd (addRoom sfo scene_add m grp))"
  by (auto simp: indexed_with_userData_def collisionBoxes_addRoom list_all_iff
        simp del: not_None_eq dest: indexable_userData)

lemma has_userData_builders:
  "has_userData new_Group" "has_userData (new_Mesh geo mm)"
  "has_userData (RoomBuilder_createRoomGroup data)"
  "has_userData (createWall x z w d mat)" "has_userData (createFloor x z w d mat)"
  by (simp_all add: new_Group_def new_Mesh_def RoomBuilder_createRoomGroup_def createWall_def
        createFloor_def add_child_def Let_def)

lemma has_userData_add_child:
  "has_userData parent \<Longrightarrow> has_userData child \<Longrightarrow> has_userData (add_child parent child)"
  by (cases parent) (simp add: add_child_def)

lemma traverse_floor_room:
  "filter indexable (traverse (add_child (RoomBuilder_createRoomGroup data) (createFloor fx fz w d mat))) = []"
  by (simp add: add_child_def RoomBuilder_createRoomGroup_def createFloor_def new_Group_def
        new_Mesh_def indexable_def empty_userData_def Let_def)

lemma collisionBoxes_floor_room:
  "collisionBoxes
     (snd (addRoom sfo scene_add m
        (add_child (RoomBuilder_createRoomGroup data) (createFloor fx fz w d mat)))) =
   collisionBoxes m"
  by (simp add: collisionBoxes_addRoom takeWhile_has_userData has_userData_add_child
        has_userData_builders traverse_floor_room del: not_None_eq)

lemma collisionBoxes_wall_and_floor_room:
  "collisionBoxes (snd (addRoom (\<lambda>c. unit_box) scene_add (RoomManager_new []) wall_and_floor_room)) =
     [\<lparr>box = unit_box,
       mesh = Object3D (Some []) (Some (empty_userData\<lparr>isCollisionMesh := True, ud_type := Some ''wall''\<rparr>))
                \<lparr>vec_x = 0, vec_y = 1 / 2, vec_z = 0\<rparr> 0 (Some (BoxGeometry 1 1 1))
                (Some MeshBasicMaterial_invisible) []\<rparr>]"
  by (simp add: collisionBoxes_addRoom RoomManager_new_def wall_and_floor_room_def add_child_def
        createFloor_def createWall_def new_Group_def new_Mesh_def indexable_def empty_userData_def
        origin_def WALL_HEIGHT_def Let_def)

text \<open>
  C7 (expanded-box test). \<open>checkCollision\<close> at \<open>(x, z)\<close> with a radius returns true exactly
  when some indexed box, grown by the radius on both axes, contains the point: on a manager
  whose indexed meshes have a \<open>userData\<close> object it returns, and what it returns is whether
  such a box exists. Every manager built from a new one by \<open>addRoom\<close> is such a manager. On
  any manager at all it returns false exactly when no such box exists, and it throws (at
  the logged read of \<open>mesh.userData.type\<close>) exactly when the first such box is that of a
  mesh whose \<open>userData\<close> is null or undefined. With one
  indexed box that spans \<open>[0,1]\<close> by \<open>[0,1]\<close> in \<open>(x, z)\<close>, the query \<open>(1.05, 0.5)\<close> returns
  true with radius 0.1 and false with radius 0.01. Numbers are real numbers here.
\<close>

theorem checkCollision_expanded_box:
  "(indexed_with_userData m \<longrightarrow>
      checkCollision m x z (Some radius) =
        Inr (\<exists>cb \<in> set (collisionBoxes m).
               vec_x (box_min (box cb)) - radius \<le> x \<and> x \<le> vec_x (box_max (box cb)) + radius \<and>
               vec_z (box_min (box cb)) - radius \<le> z \<and> z \<le> vec_z (box_max (box cb)) + radius)) \<and>
   (checkCollision m x z (Some radius) = Inr False \<longleftrightarrow>
      \<not> (\<exists>cb \<in> set (collisionBoxes m).
            vec_x (box_min (box cb)) - radius \<le> x \<and> x \<le> vec_x (box_max (box cb)) + radius \<and>
            vec_z (box_min (box cb)) - radius \<le> z \<and> z \<le> vec_z (box_max (box cb)) + radius)) \<and>
   (checkCollision m x z (Some radius) = Inl TypeError \<longleftrightarrow>
      (\<exists>cb. find (\<lambda>cb.
               vec_x (box_min (box cb)) - radius \<le> x \<and> x \<le> vec_x (box_max (box cb)) + radius \<and>
               vec_z (box_min (box cb)) - radius \<le> z \<and> z \<le> vec_z (box_max (box cb)) + radius)
             (collisionBoxes m) = Some cb \<and>
           userData (mesh cb) = None)) \<and>
   indexed_with_userData (RoomManager_new sc) \<and>
   (indexed_with_userData m \<longrightarrow> indexed_with_userData (snd (addRoom sfo scene_add m grp))) \<and>
   (indexed_with_userData m' \<and> map box (collisionBoxes m') = [b] \<and>
    vec_x (box_min b) = 0 \<and> vec_x (box_max b) = 1 \<and> vec_z (box_min b) = 0 \<and> vec_z (box_max b) = 1 \<longrightarrow>
      checkCollision m' (105 / 100) (1 / 2) (Some (1 / 10)) = Inr True \<and>
      checkCollision m' (105 / 100) (1 / 2) (Some (1 / 100)) = Inr False)"
proof -
  have 1: "checkCollision m x z (Some radius) =
        Inr (\<exists>cb \<in> set (collisionBoxes m).
               vec_x (box_min (box cb)) - radius \<le> x \<and> x \<le> vec_x (box_max (box cb)) + radius \<and>
               vec_z (box_min (box cb)) - radius \<le> z \<and> z \<le> vec_z (box_max (box cb)) + radius)"
    if "indexed_with_userData m"
    using scan_boxes_returns [of "collisionBoxes m" x z radius] that
    by (simp add: checkCollision_def indexed_with_userData_def in_expanded_box_def)
  have 2: "checkCollision m x z (Some radius) = Inr False \<longleftrightarrow>
      \<not> (\<exists>cb \<in> set (collisionBoxes m).
            vec_x (box_min (box cb)) - radius \<le> x \<and> x \<le> vec_x (box_max (box cb)) + radius \<and>
            vec_z (box_min (box cb)) - radius \<le> z \<and> z \<le> vec_z (box_max (box cb)) + radius)"
    using scan_boxes_False [of "collisionBoxes m" x z radius]
    by (simp add: checkCollision_def in_expanded_box_def)
  have 6: "checkCollision m x z (Some radius) = Inl TypeError \<longleftrightarrow>
      (\<exists>cb. find (\<lambda>cb.
               vec_x (box_min (box cb)) - radius \<le> x \<and> x \<le> vec_x (box_max (box cb)) + radius \<and>
               vec_z (box_min (box cb)) - radius \<le> z \<and> z \<le> vec_z (box_max (box cb)) + radius)
             (collisionBoxes m) = Some cb \<and>
           userData (mesh cb) = None)"
    using scan_boxes_throws [of "collisionBoxes m" x z radius]
    by (simp add: checkCollision_def in_expanded_box_def [abs_def])
  have 3: "indexed_with_userData (RoomManager_new sc)"
    by (simp add: indexed_with_userData_def RoomManager_new_def)
  have 4: "indexed_with_userData (snd (addRoom sfo scene_add m grp))" if "indexed_with_userData m"
    using that by (rule indexed_with_userData_addRoom)
  have 5: "checkCollision m' (105 / 100) (1 / 2) (Some (1 / 10)) = Inr True \<and>
      checkCollision m' (105 / 100) (1 / 2) (Some (1 / 100)) = Inr False"
    if "indexed_with_userData m'" "map box (collisionBoxes m') = [b]"
      "vec_x (box_min b) = 0" "vec_x (box_max b) = 1" "vec_z (box_min b) = 0" "vec_z (box_max b) = 1"
  proof -
    from that(2) obtain cb where cb: "collisionBoxes m' = [cb]" "box cb = b" by auto
    with that(1) obtain ud where "userData (mesh cb) = Some ud"
      by (auto simp: indexed_with_userData_def)
    with cb that(3-) show ?thesis
      by (simp add: checkCollision_def)
  qed
  show ?thesis
    apply (intro conjI)
         apply (rule impI, erule 1)
        apply (rule 2)
       apply (rule 6)
      apply (rule 3)
     apply (rule impI, erule 4)
    apply (rule impI, elim conjE, rule 5, assumption+)
    done
qed

theorem checkCollision_expanded_box_witness:
  "\<forall>scene_add.
   indexed_with_userData (RoomManager_new []) \<and>
   indexed_with_userData (snd (addRoom (\<lambda>c. unit_box) scene_add (RoomManager_new []) wall_and_floor_room)) \<and>
   map box (collisionBoxes (snd (addRoom (\<lambda>c. unit_box) scene_add (RoomManager_new []) wall_and_floor_room)))
     = [unit_box] \<and>
   vec_x (box_min unit_box) = 0 \<and> vec_x (box_max unit_box) = 1 \<and>
   vec_z (box_min unit_box) = 0 \<and> vec_z (box_max unit_box) = 1 \<and>
   checkCollision (snd (addRoom (\<lambda>c. unit_box) scene_add (RoomManager_new []) wall_and_floor_room))
     (105 / 100) (1 / 2) (Some (1 / 10)) = Inr True \<and>
   checkCollision (snd (addRoom (\<lambda>c. unit_box) scene_add (RoomManager_new []) wall_and_floor_room))
     (105 / 100) (1 / 2) (Some (1 / 100)) = Inr False \<and>
   (\<exists>cb \<in> set (collisionBoxes
                (snd (addRoom (\<lambda>c. unit_box) scene_add (RoomManager_new []) wall_and_floor_room))).
      vec_x (box_min (box cb)) - 1 / 10 \<le> 105 / 100 \<and> 105 / 100 \<le> vec_x (box_max (box cb)) + 1 / 10 \<and>
      vec_z (box_min (box cb)) - 1 / 10 \<le> 1 / 2 \<and> 1 / 2 \<le> vec_z (box_max (box cb)) + 1 / 10)"
proof
  fix scene_add :: "Object3D list \<Rightarrow> Object3D \<Rightarrow> Object3D list"
  let ?m = "snd (addRoom (\<lambda>c. unit_box) scene_add (RoomManager_new []) wall_and_floor_room)"
  note t = checkCollision_expanded_box
    [of "RoomManager_new []" "105 / 100" "1 / 2" "1 / 10" "[]" "\<lambda>c. unit_box" scene_add
        wall_and_floor_room ?m unit_box]
  note t' = checkCollision_expanded_box
    [of ?m "105 / 100" "1 / 2" "1 / 10" "[]" "\<lambda>c. unit_box" scene_add wall_and_floor_room ?m unit_box]
  from t have i0: "indexed_with_userData (RoomManager_new [])" by blast
  with t have i: "indexed_with_userData ?m" by blast
  have h: "map box (collisionBoxes ?m) = [unit_box]"
    by (simp add: collisionBoxes_wall_and_floor_room)
  have u: "vec_x (box_min unit_box) = 0" "vec_x (box_max unit_box) = 1"
    "vec_z (box_min unit_box) = 0" "vec_z (box_max unit_box) = 1"
    by (simp_all add: unit_box_def)
  from t' i h u have c: "checkCollision ?m (105 / 100) (1 / 2) (Some (1 / 10)) = Inr True"
    "checkCollision ?m (105 / 100) (1 / 2) (Some (1 / 100)) = Inr False"
    by blast+
  from t' i c(1) have e: "\<exists>cb \<in> set (collisionBoxes ?m).
      vec_x (box_min (box cb)) - 1 / 10 \<le> 105 / 100 \<and> 105 / 100 \<le> vec_x (box_max (box cb)) + 1 / 10 \<and>
      vec_z (box_min (box cb)) - 1 / 10 \<le> 1 / 2 \<and> 1 / 2 \<le> vec_z (box_max (box cb)) + 1 / 10"
    by simp
  show "indexed_with_userData (RoomManager_new []) \<and>
   indexed_with_userData ?m \<and>
   map box (collisionBoxes ?m) = [unit_box] \<and>
   vec_x (box_min unit_box) = 0 \<and> vec_x (box_max unit_box) = 1 \<and>
   vec_z (box_min unit_box) = 0 \<and> vec_z (box_max unit_box) = 1 \<and>
   checkCollision ?m (105 / 100) (1 / 2) (Some (1 / 10)) = Inr True \<and>
   checkCollision ?m (105 / 100) (1 / 2) (Some (1 / 100)) = Inr False \<and>
   (\<exists>cb \<in> set (collisionBoxes ?m).
      vec_x (box_min (box cb)) - 1 / 10 \<le> 105 / 100 \<and> 105 / 100 \<le> vec_x (box_max (box cb)) + 1 / 10 \<and>
      vec_z (box_min (box cb)) - 1 / 10 \<le> 1 / 2 \<and> 1 / 2 \<le> vec_z (box_max (box cb)) + 1 / 10)"
    by (intro conjI) (fact i0 i h u c e)+
qed

text \<open>
  C8 (floor exclusion). Every box \<open>addRoom\<close> adds to the collision index, also in a call
  that throws, comes from an object of the group that is tagged as a collision mesh and
  whose type is not \<open>floor\<close>. So adding a room that consists of a room group and a floor
  made by \<open>createFloor\<close> returns and leaves every answer of \<open>checkCollision\<close> as it was, and
  on a manager with no other room \<open>checkCollision\<close> returns false at every point and radius,
  the centre of the floor among them.
\<close>

theorem floor_exclusion:
  "(\<forall>cb \<in> set (collisionBoxes (snd (addRoom sfo scene_add m grp))).
      cb \<in> set (collisionBoxes m) \<or>
      mesh cb \<in> set (traverse grp) \<and>
      (\<exists>ud. userData (mesh cb) = Some ud \<and> isCollisionMesh ud \<and> ud_type ud \<noteq> Some ''floor'')) \<and>
   fst (addRoom sfo scene_add m (add_child (RoomBuilder_createRoomGroup data) (createFloor fx fz w d mat)))
     = None \<and>
   (\<forall>x z radius.
      checkCollision
        (snd (addRoom sfo scene_add m
           (add_child (RoomBuilder_createRoomGroup data) (createFloor fx fz w d mat))))
        x z radius = checkCollision m x z radius) \<and>
   (\<forall>x z radius.
      checkCollision
        (snd (addRoom sfo scene_add (RoomManager_new sc)
           (add_child (RoomBuilder_createRoomGroup data) (createFloor fx fz w d mat))))
        x z radius = Inr False)"
proof -
  have 1: "\<forall>cb \<in> set (collisionBoxes (snd (addRoom sfo scene_add m grp))).
      cb \<in> set (collisionBoxes m) \<or>
      mesh cb \<in> set (traverse grp) \<and>
      (\<exists>ud. userData (mesh cb) = Some ud \<and> isCollisionMesh ud \<and> ud_type ud \<noteq> Some ''floor'')"
    by (auto simp: collisionBoxes_addRoom indexable_def split: option.splits dest: set_takeWhileD)
  have 0: "fst (addRoom sfo scene_add m
      (add_child (RoomBuilder_createRoomGroup data) (createFloor fx fz w d mat))) = None"
    by (simp add: addRoom_returns has_userData_add_child has_userData_builders)
  have 2: "checkCollision
        (snd (addRoom sfo scene_add m'
           (add_child (RoomBuilder_createRoomGroup data) (createFloor fx fz w d mat))))
        x z radius = checkCollision m' x z radius" for m' x z radius
    by (simp add: checkCollision_def collisionBoxes_floor_room)
  have 3: "checkCollision
        (snd (addRoom sfo scene_add (RoomManager_new sc)
           (add_child (RoomBuilder_createRoomGroup data) (createFloor fx fz w d mat))))
        x z radius = Inr False" for x z radius
    by (simp add: 2) (simp add: checkCollision_def RoomManager_new_def)
  from 1 0 2 3 show ?thesis by blast
qed

theorem floor_exclusion_witness:
  "\<forall>scene_add.
   map (\<lambda>c. map_option ud_type (userData c))
     (filter (\<lambda>c. case userData c of None \<Rightarrow> False | Some ud \<Rightarrow> isCollisionMesh ud)
        (traverse wall_and_floor_room))
     = [Some (Some ''floor''), Some (Some ''wall'')] \<and>
   map (\<lambda>cb. map_option ud_type (userData (mesh cb)))
     (collisionBoxes (snd (addRoom (\<lambda>c. unit_box) scene_add (RoomManager_new []) wall_and_floor_room)))
     = [Some (Some ''wall'')] \<and>
   list_all
     (\<lambda>cb. cb \<in> set (collisionBoxes (RoomManager_new [])) \<or>
        mesh cb \<in> set (traverse wall_and_floor_room) \<and>
        (\<exists>ud. userData (mesh cb) = Some ud \<and> isCollisionMesh ud \<and> ud_type ud \<noteq> Some ''floor''))
     (collisionBoxes (snd (addRoom (\<lambda>c. unit_box) scene_add (RoomManager_new []) wall_and_floor_room)))"
proof
  fix scene_add :: "Object3D list \<Rightarrow> Object3D \<Rightarrow> Object3D list"
  let ?m = "snd (addRoom (\<lambda>c. unit_box) scene_add (RoomManager_new []) wall_and_floor_room)"
  have 1: "map (\<lambda>cb. map_option ud_type (userData (mesh cb))) (collisionBoxes ?m) = [Some (Some ''wall'')]"
    by (simp add: collisionBoxes_wall_and_floor_room empty_userData_def)
  have 2: "map (\<lambda>c. map_option ud_type (userData c))
     (filter (\<lambda>c. case userData c of None \<Rightarrow> False | Some ud \<Rightarrow> isCollisionMesh ud)
        (traverse wall_and_floor_room))
     = [Some (Some ''floor''), Some (Some ''wall'')]"
    by (simp add: wall_and_floor_room_def add_child_def
          createFloor_def createWall_def new_Group_def new_Mesh_def empty_userData_def Let_def)
  have 3: "list_all
     (\<lambda>cb. cb \<in> set (collisionBoxes (RoomManager_new [])) \<or>
        mesh cb \<in> set (traverse wall_and_floor_room) \<and>
        (\<exists>ud. userData (mesh cb) = Some ud \<and> isCollisionMesh ud \<and> ud_type ud \<noteq> Some ''floor''))
     (collisionBoxes ?m)"
    using floor_exclusion [of "\<lambda>c. unit_box" scene_add "RoomManager_new []" wall_and_floor_room]
    unfolding list_all_iff by blast
  show "map (\<lambda>c. map_option ud_type (userData c))
     (filter (\<lambda>c. case userData c of None \<Rightarrow> False | Some ud \<Rightarrow> isCollisionMesh ud)
        (traverse wall_and_floor_room))
     = [Some (Some ''floor''), Some (Some ''wall'')] \<and>
   map (\<lambda>cb. map_option ud_type (userData (mesh cb))) (collisionBoxes ?m) = [Some (Some ''wall'')] \<and>
   list_all
     (\<lambda>cb. cb \<in> set (collisionBoxes (RoomManager_new [])) \<or>
        mesh cb \<in> set (traverse wall_and_floor_room) \<and>
        (\<exists>ud. userData (mesh cb) = Some ud \<and> isCollisionMesh ud \<and> ud_type ud \<noteq> Some ''floor''))
     (collisionBoxes ?m)"
    by (intro conjI) (fact 1 2 3)+
qed

text \<open>
  C9 (metadata defaults). \<open>addRoom\<close> throws exactly when the \<open>userData\<close> of the group or of
  one of its descendants is null or undefined; the objects the library and the room builder
  create are not such objects, and no missing metadata field makes it throw. For a group
  whose \<open>userData\<close> is an object, as that of its descendants, \<open>addRoom\<close> returns and records
  one more room, whose group is the group given, with the name of the group (or
  \<open>UnnamedRoom\<close> when the group has none) when \<open>userData\<close> has no name, unit dimensions when
  it has no dimensions, no connection on any side when it has no connections, and the theme
  \<open>default\<close> when it has no theme (and the difficulty \<open>normal\<close> when it has no
  difficulty). Whatever the metadata, it hands the group to the \<open>add\<close>
  of the scene, and it indexes every child of the group, and every child of a child, that is
  a collision mesh and not a floor: the index grows by the boxes of the collision meshes met
  in the traversal of the group that are not floors, in the order of the traversal.
\<close>

theorem addRoom_defaults:
  "(fst (addRoom sfo scene_add m grp) = None \<longleftrightarrow> has_userData grp) \<and>
   has_userData new_Group \<and> has_userData (new_Mesh geo mm) \<and>
   has_userData (RoomBuilder_createRoomGroup data) \<and>
   has_userData (createWall wx wz ww wd wmat) \<and> has_userData (createFloor wx wz ww wd wmat) \<and>
   (has_userData grp \<longrightarrow>
    (\<exists>ud roomData m'.
       userData grp = Some ud \<and>
       addRoom sfo scene_add m grp = (None, m') \<and>
       rm_rooms m' = rm_rooms m @ [roomData] \<and>
       rd_group roomData = grp \<and>
       (ud_name ud = None \<longrightarrow>
          rd_name roomData = (case obj_name grp of Some n \<Rightarrow> n | None \<Rightarrow> ''UnnamedRoom'')) \<and>
       (ud_dimensions ud = None \<longrightarrow>
          rd_dimensions roomData = \<lparr>width = 1, depth = 1, height = 1\<rparr>) \<and>
       (ud_connections ud = None \<longrightarrow> rd_connections roomData = (\<lambda>dir. None)) \<and>
       (ud_theme ud = None \<longrightarrow> rd_theme roomData = ''default'') \<and>
       (ud_difficulty ud = None \<longrightarrow> rd_difficulty roomData = ''normal'') \<and>
       scene m' = scene_add (scene m) grp \<and>
       (\<forall>c \<in> set (children grp).
          (\<exists>u. userData c = Some u \<and> isCollisionMesh u \<and> ud_type u \<noteq> Some ''floor'') \<longrightarrow>
          \<lparr>box = sfo c, mesh = c\<rparr> \<in> set (collisionBoxes m')) \<and>
       (\<forall>c \<in> set (children grp). \<forall>c' \<in> set (children c).
          (\<exists>u. userData c' = Some u \<and> isCollisionMesh u \<and> ud_type u \<noteq> Some ''floor'') \<longrightarrow>
          \<lparr>box = sfo c', mesh = c'\<rparr> \<in> set (collisionBoxes m')) \<and>
       collisionBoxes m' =
         collisionBoxes m @
         map (\<lambda>c. \<lparr>box = sfo c, mesh = c\<rparr>)
           (filter (\<lambda>c. \<exists>u. userData c = Some u \<and> isCollisionMesh u \<and> ud_type u \<noteq> Some ''floor'')
              (traverse grp))))"
proof -
  have ix: "indexable = (\<lambda>c. \<exists>u. userData c = Some u \<and> isCollisionMesh u \<and> ud_type u \<noteq> Some ''floor'')"
    by (auto simp: indexable_def fun_eq_iff split: option.splits)
  have main: "\<exists>ud roomData m'.
       userData grp = Some ud \<and>
       addRoom sfo scene_add m grp = (None, m') \<and>
       rm_rooms m' = rm_rooms m @ [roomData] \<and>
       rd_group roomData = grp \<and>
       (ud_name ud = None \<longrightarrow>
          rd_name roomData = (case obj_name grp of Some n \<Rightarrow> n | None \<Rightarrow> ''UnnamedRoom'')) \<and>
       (ud_dimensions ud = None \<longrightarrow>
          rd_dimensions roomData = \<lparr>width = 1, depth = 1, height = 1\<rparr>) \<and>
       (ud_connections ud = None \<longrightarrow> rd_connections roomData = (\<lambda>dir. None)) \<and>
       (ud_theme ud = None \<longrightarrow> rd_theme roomData = ''default'') \<and>
       (ud_difficulty ud = None \<longrightarrow> rd_difficulty roomData = ''normal'') \<and>
       scene m' = scene_add (scene m) grp \<and>
       (\<forall>c \<in> set (children grp).
          (\<exists>u. userData c = Some u \<and> isCollisionMesh u \<and> ud_type u \<noteq> Some ''floor'') \<longrightarrow>
          \<lparr>box = sfo c, mesh = c\<rparr> \<in> set (collisionBoxes m')) \<and>
       (\<forall>c \<in> set (children grp). \<forall>c' \<in> set (children c).
          (\<exists>u. userData c' = Some u \<and> isCollisionMesh u \<and> ud_type u \<noteq> Some ''floor'') \<longrightarrow>
          \<lparr>box = sfo c', mesh = c'\<rparr> \<in> set (collisionBoxes m')) \<and>
       collisionBoxes m' =
         collisionBoxes m @
         map (\<lambda>c. \<lparr>box = sfo c, mesh = c\<rparr>)
           (filter (\<lambda>c. \<exists>u. userData c = Some u \<and> isCollisionMesh u \<and> ud_type u \<noteq> Some ''floor'')
              (traverse grp))"
    if wf: "has_userData grp"
  proof -
    from wf obtain ud where ud: "userData grp = Some ud" by (cases grp) auto
    define m' where "m' = snd (addRoom sfo scene_add m grp)"
    define roomData where "roomData = last (rm_rooms m')"
    have ret: "addRoom sfo scene_add m grp = (None, m')"
      using addRoom_returns [of sfo scene_add m grp] wf
      by (simp add: m'_def prod_eq_iff)
    have boxes: "collisionBoxes m' =
         collisionBoxes m @
         map (\<lambda>c. \<lparr>box = sfo c, mesh = c\<rparr>)
           (filter (\<lambda>c. \<exists>u. userData c = Some u \<and> isCollisionMesh u \<and> ud_type u \<noteq> Some ''floor'')
              (traverse grp))"
      unfolding m'_def collisionBoxes_addRoom takeWhile_has_userData [OF wf] ix ..
    have rooms: "rm_rooms m' = rm_rooms m @ [roomData]"
      by (simp add: roomData_def m'_def addRoom_def ud Let_def)
    have fields: "rd_group roomData = grp"
      "ud_name ud = None \<longrightarrow>
          rd_name roomData = (case obj_name grp of Some n \<Rightarrow> n | None \<Rightarrow> ''UnnamedRoom'')"
      "ud_dimensions ud = None \<longrightarrow> rd_dimensions roomData = \<lparr>width = 1, depth = 1, height = 1\<rparr>"
      "ud_connections ud = None \<longrightarrow> rd_connections roomData = (\<lambda>dir. None)"
      "ud_theme ud = None \<longrightarrow> rd_theme roomData = ''default''"
      "ud_difficulty ud = None \<longrightarrow> rd_difficulty roomData = ''normal''"
      by (simp_all add: roomData_def m'_def addRoom_def ud Let_def)
    have sc: "scene m' = scene_add (scene m) grp"
      by (simp add: m'_def addRoom_def ud Let_def)
    have ch: "\<lparr>box = sfo c, mesh = c\<rparr> \<in> set (collisionBoxes m')"
      if "c \<in> set (children grp)"
        "\<exists>u. userData c = Some u \<and> isCollisionMesh u \<and> ud_type u \<noteq> Some ''floor''" for c
    proof -
      from that(1) have "c \<in> set (traverse grp)"
        using child_traverse [of c grp] self_in_traverse [of c] by blast
      with that(2) show ?thesis unfolding boxes by simp
    qed
    have gch: "\<lparr>box = sfo c', mesh = c'\<rparr> \<in> set (collisionBoxes m')"
      if "c \<in> set (children grp)" "c' \<in> set (children c)"
        "\<exists>u. userData c' = Some u \<and> isCollisionMesh u \<and> ud_type u \<noteq> Some ''floor''" for c c'
    proof -
      from that(1,2) have "c' \<in> set (traverse grp)"
        using child_traverse [of c grp] child_traverse [of c' c] self_in_traverse [of c'] by blast
      with that(3) show ?thesis unfolding boxes by simp
    qed
    show ?thesis
      apply (rule exI [of _ ud], rule exI [of _ roomData], rule exI [of _ m'])
      apply (intro conjI ballI impI)
                apply (fact ud ret rooms fields sc boxes)+
        apply (fact fields [rule_format])+
        apply (fact sc)
       apply (erule (1) ch)
      apply (erule (2) gch)
      apply (fact boxes)
      done
  qed
  show ?thesis
    apply (intro conjI impI)
          apply (rule addRoom_returns)
         apply (rule has_userData_builders)+
    apply (erule main)
    done
qed

theorem addRoom_defaults_witness:
  "\<forall>scene_add.
   has_userData unnamed_room \<and> has_userData named_room \<and>
   userData unnamed_room = Some empty_userData \<and> obj_name unnamed_room = None \<and>
   userData named_room = Some empty_userData \<and> obj_name named_room = Some ''hall'' \<and>
   ud_name empty_userData = None \<and> ud_dimensions empty_userData = None \<and>
   ud_connections empty_userData = None \<and> ud_theme empty_userData = None \<and>
   ud_difficulty empty_userData = None \<and>
   fst (addRoom (\<lambda>c. unit_box) scene_add (RoomManager_new []) unnamed_room) = None \<and>
   fst (addRoom (\<lambda>c. unit_box) scene_add (RoomManager_new []) named_room) = None \<and>
   map (\<lambda>rd. (rd_name rd, rd_dimensions rd, map (rd_connections rd) [north, south, east, west],
               rd_theme rd, rd_difficulty rd, rd_group rd))
     (rm_rooms (snd (addRoom (\<lambda>c. unit_box) scene_add (RoomManager_new []) unnamed_room))) =
     [(''UnnamedRoom'', \<lparr>width = 1, depth = 1, height = 1\<rparr>, [None, None, None, None],
       ''default'', ''normal'', unnamed_room)] \<and>
   map (\<lambda>rd. (rd_name rd, rd_dimensions rd, map (rd_connections rd) [north, south, east, west],
               rd_theme rd, rd_difficulty rd, rd_group rd))
     (rm_rooms (snd (addRoom (\<lambda>c. unit_box) scene_add (RoomManager_new []) named_room))) =
     [(''hall'', \<lparr>width = 1, depth = 1, height = 1\<rparr>, [None, None, None, None],
       ''default'', ''normal'', named_room)] \<and>
   scene (snd (addRoom (\<lambda>c. unit_box) scene_add (RoomManager_new []) unnamed_room)) =
     scene_add [] unnamed_room \<and>
   createWall (1 / 2) (1 / 2) 1 1 1 \<in> set (children unnamed_room) \<and>
   Object3D (Some []) (Some (empty_userData\<lparr>isCollisionMesh := True, ud_type := Some ''wall''\<rparr>))
     \<lparr>vec_x = 0, vec_y = 1 / 2, vec_z = 0\<rparr> 0 (Some (BoxGeometry 1 1 1))
     (Some MeshBasicMaterial_invisible) [] \<in> set (children (createWall (1 / 2) (1 / 2) 1 1 1)) \<and>
   collisionBoxes (snd (addRoom (\<lambda>c. unit_box) scene_add (RoomManager_new []) unnamed_room)) =
     [\<lparr>box = unit_box,
       mesh = Object3D (Some []) (Some (empty_userData\<lparr>isCollisionMesh := True, ud_type := Some ''wall''\<rparr>))
                \<lparr>vec_x = 0, vec_y = 1 / 2, vec_z = 0\<rparr> 0 (Some (BoxGeometry 1 1 1))
                (Some MeshBasicMaterial_invisible) []\<rparr>]"
proof
  fix scene_add :: "Object3D list \<Rightarrow> Object3D \<Rightarrow> Object3D list"
  let ?m0 = "RoomManager_new []"
  let ?wall = "Object3D (Some []) (Some (empty_userData\<lparr>isCollisionMesh := True, ud_type := Some ''wall''\<rparr>))
                \<lparr>vec_x = 0, vec_y = 1 / 2, vec_z = 0\<rparr> 0 (Some (BoxGeometry 1 1 1))
                (Some MeshBasicMaterial_invisible) []"
  have w: "has_userData unnamed_room" "has_userData named_room"
    by (simp_all add: unnamed_room_def named_room_def createWall_def createFloor_def new_Group_def
          new_Mesh_def add_child_def Let_def)
  have u: "userData unnamed_room = Some empty_userData" "obj_name unnamed_room = None"
    "userData named_room = Some empty_userData" "obj_name named_room = Some ''hall''"
    by (simp_all add: unnamed_room_def named_room_def)
  have e: "ud_name empty_userData = None" "ud_dimensions empty_userData = None"
    "ud_connections empty_userData = None" "ud_theme empty_userData = None"
    "ud_difficulty empty_userData = None"
    by (simp_all add: empty_userData_def)
  have tr: "filter (\<lambda>c. \<exists>u. userData c = Some u \<and> isCollisionMesh u \<and> ud_type u \<noteq> Some ''floor'')
      (traverse unnamed_room) = [?wall]"
    by (simp add: unnamed_room_def createWall_def createFloor_def new_Group_def new_Mesh_def
          add_child_def empty_userData_def origin_def WALL_HEIGHT_def Let_def)
  have ch: "createWall (1 / 2) (1 / 2) 1 1 1 \<in> set (children unnamed_room)"
    "?wall \<in> set (children (createWall (1 / 2) (1 / 2) 1 1 1))"
    by (simp_all add: unnamed_room_def createWall_def new_Group_def new_Mesh_def add_child_def
          empty_userData_def origin_def WALL_HEIGHT_def Let_def)
  note t1 = addRoom_defaults [of "\<lambda>c. unit_box" scene_add ?m0 unnamed_room
      "PlaneGeometry 1 1" MeshBasicMaterial_invisible
      "\<lparr>md_name = ''hall'', md_dimensions = \<lparr>width = 1, depth = 1, height = 1\<rparr>,
        md_connections = (\<lambda>dir. None), md_theme = ''default'', md_difficulty = ''normal''\<rparr>"
      "1 / 2" "1 / 2" 1 1 1]
  note t2 = addRoom_defaults [of "\<lambda>c. unit_box" scene_add ?m0 named_room
      "PlaneGeometry 1 1" MeshBasicMaterial_invisible
      "\<lparr>md_name = ''hall'', md_dimensions = \<lparr>width = 1, depth = 1, height = 1\<rparr>,
        md_connections = (\<lambda>dir. None), md_theme = ''default'', md_difficulty = ''normal''\<rparr>"
      "1 / 2" "1 / 2" 1 1 1]
  from t1 w(1) have r1: "fst (addRoom (\<lambda>c. unit_box) scene_add ?m0 unnamed_room) = None" by blast
  from t2 w(2) have r2: "fst (addRoom (\<lambda>c. unit_box) scene_add ?m0 named_room) = None" by blast
  from t1 [THEN conjunct2, THEN conjunct2, THEN conjunct2, THEN conjunct2, THEN conjunct2,
      THEN conjunct2, THEN mp, OF w(1)] obtain ud roomData m' where a:
    "userData unnamed_room = Some ud"
    "addRoom (\<lambda>c. unit_box) scene_add ?m0 unnamed_room = (None, m')"
    "rm_rooms m' = rm_rooms ?m0 @ [roomData]" "rd_group roomData = unnamed_room"
    "ud_name ud = None \<longrightarrow>
       rd_name roomData = (case obj_name unnamed_room of Some n \<Rightarrow> n | None \<Rightarrow> ''UnnamedRoom'')"
    "ud_dimensions ud = None \<longrightarrow> rd_dimensions roomData = \<lparr>width = 1, depth = 1, height = 1\<rparr>"
    "ud_connections ud = None \<longrightarrow> rd_connections roomData = (\<lambda>dir. None)"
    "ud_theme ud = None \<longrightarrow> rd_theme roomData = ''default''"
    "ud_difficulty ud = None \<longrightarrow> rd_difficulty roomData = ''normal''"
    "scene m' = scene_add (scene ?m0) unnamed_room"
    "collisionBoxes m' =
       collisionBoxes ?m0 @
       map (\<lambda>c. \<lparr>box = unit_box, mesh = c\<rparr>)
         (filter (\<lambda>c. \<exists>u. userData c = Some u \<and> isCollisionMesh u \<and> ud_type u \<noteq> Some ''floor'')
            (traverse unnamed_room))"
    by (elim exE conjE) (rule that, assumption+)
  from t2 [THEN conjunct2, THEN conjunct2, THEN conjunct2, THEN conjunct2, THEN conjunct2,
      THEN conjunct2, THEN mp, OF w(2)] obtain ud2 roomData2 m2 where b:
    "userData named_room = Some ud2"
    "addRoom (\<lambda>c. unit_box) scene_add ?m0 named_room = (None, m2)"
    "rm_rooms m2 = rm_rooms ?m0 @ [roomData2]" "rd_group roomData2 = named_room"
    "ud_name ud2 = None \<longrightarrow>
       rd_name roomData2 = (case obj_name named_room of Some n \<Rightarrow> n | None \<Rightarrow> ''UnnamedRoom'')"
    "ud_dimensions ud2 = None \<longrightarrow> rd_dimensions roomData2 = \<lparr>width = 1, depth = 1, height = 1\<rparr>"
    "ud_connections ud2 = None \<longrightarrow> rd_connections roomData2 = (\<lambda>dir. None)"
    "ud_theme ud2 = None \<longrightarrow> rd_theme roomData2 = ''default''"
    "ud_difficulty ud2 = None \<longrightarrow> rd_difficulty roomData2 = ''normal''"
    by (elim exE conjE) (rule that, assumption+)
  from a(1) u(1) have ud: "ud = empty_userData" by simp
  from b(1) u(3) have ud2: "ud2 = empty_userData" by simp
  have rooms1: "map (\<lambda>rd. (rd_name rd, rd_dimensions rd, map (rd_connections rd) [north, south, east, west],
               rd_theme rd, rd_difficulty rd, rd_group rd))
     (rm_rooms (snd (addRoom (\<lambda>c. unit_box) scene_add ?m0 unnamed_room))) =
     [(''UnnamedRoom'', \<lparr>width = 1, depth = 1, height = 1\<rparr>, [None, None, None, None],
       ''default'', ''normal'', unnamed_room)]"
    unfolding a(2) snd_conv using a(3-9) e u(2) by (simp add: ud RoomManager_new_def)
  have rooms2: "map (\<lambda>rd. (rd_name rd, rd_dimensions rd, map (rd_connections rd) [north, south, east, west],
               rd_theme rd, rd_difficulty rd, rd_group rd))
     (rm_rooms (snd (addRoom (\<lambda>c. unit_box) scene_add ?m0 named_room))) =
     [(''hall'', \<lparr>width = 1, depth = 1, height = 1\<rparr>, [None, None, None, None],
       ''default'', ''normal'', named_room)]"
    unfolding b(2) snd_conv using b(3-9) e u(4) by (simp add: ud2 RoomManager_new_def)
  have sc: "scene (snd (addRoom (\<lambda>c. unit_box) scene_add ?m0 unnamed_room)) = scene_add [] unnamed_room"
    unfolding a(2) snd_conv using a(10) by (simp add: RoomManager_new_def)
  have boxes: "collisionBoxes (snd (addRoom (\<lambda>c. unit_box) scene_add ?m0 unnamed_room)) =
     [\<lparr>box = unit_box, mesh = ?wall\<rparr>]"
    unfolding a(2) snd_conv using a(11) by (simp add: tr RoomManager_new_def)
  show "has_userData unnamed_room \<and> has_userData named_room \<and>
   userData unnamed_room = Some empty_userData \<and> obj_name unnamed_room = None \<and>
   userData named_room = Some empty_userData \<and> obj_name named_room = Some ''hall'' \<and>
   ud_name empty_userData = None \<and> ud_dimensions empty_userData = None \<and>
   ud_connections empty_userData = None \<and> ud_theme empty_userData = None \<and>
   ud_difficulty empty_userData = None \<and>
   fst (addRoom (\<lambda>c. unit_box) scene_add ?m0 unnamed_room) = None \<and>
   fst (addRoom (\<lambda>c. unit_box) scene_add ?m0 named_room) = None \<and>
   map (\<lambda>rd. (rd_name rd, rd_dimensions rd, map (rd_connections rd) [north, south, east, west],
               rd_theme rd, rd_difficulty rd, rd_group rd))
     (rm_rooms (snd (addRoom (\<lambda>c. unit_box) scene_add ?m0 unnamed_room))) =
     [(''UnnamedRoom'', \<lparr>width = 1, depth = 1, height = 1\<rparr>, [None, None, None, None],
       ''default'', ''normal'', unnamed_room)] \<and>
   map (\<lambda>rd. (rd_name rd, rd_dimensions rd, map (rd_connections rd) [north, south, east, west],
               rd_theme rd, rd_difficulty rd, rd_group rd))
     (rm_rooms (snd (addRoom (\<lambda>c. unit_box) scene_add ?m0 named_room))) =
     [(''hall'', \<lparr>width = 1, depth = 1, height = 1\<rparr>, [None, None, None, None],
       ''default'', ''normal'', named_room)] \<and>
   scene (snd (addRoom (\<lambda>c. unit_box) scene_add ?m0 unnamed_room)) = scene_add [] unnamed_room \<and>
   createWall (1 / 2) (1 / 2) 1 1 1 \<in> set (children unnamed_room) \<and>
   ?wall \<in> set (children (createWall (1 / 2) (1 / 2) 1 1 1)) \<and>
   collisionBoxes (snd (addRoom (\<lambda>c. unit_box) scene_add ?m0 unnamed_room)) =
     [\<lparr>box = unit_box, mesh = ?wall\<rparr>]"
    by (intro conjI) (fact w u e r1 r2 rooms1 rooms2 sc ch boxes)+
qed

end
